theory Spec2Isabelle
  imports Main "HOL-Library.Char_ord" "HOL-Library.List_Lexorder"
begin

section \<open>Python strings\<close>

text \<open>
  The program is \<^verbatim>\<open>services/mpc/docs/doc.py\<close> (docgrab). A Python \<^verbatim>\<open>str\<close> is modelled
  as a \<^typ>\<open>string\<close> whose characters are the code points 0..255; \<^verbatim>\<open>bytes\<close> is a
  \<^typ>\<open>string\<close> too. On that range \<^verbatim>\<open>str.isspace\<close>, the whitespace stripped by
  \<^verbatim>\<open>str.strip()\<close> and the class \<^verbatim>\<open>\s\<close> of \<^verbatim>\<open>re\<close> are the same twelve characters.
\<close>

type_synonym bytes = string

definition isspace :: "char \<Rightarrow> bool" where
  "isspace c = (c \<in> set [CHR 0x09, CHR 0x0A, CHR 0x0B, CHR 0x0C, CHR 0x0D,
                          CHR 0x1C, CHR 0x1D, CHR 0x1E, CHR 0x1F, CHR 0x20,
                          CHR 0x85, CHR 0xA0])"

text \<open>\<^verbatim>\<open>s.lstrip(chars)\<close>, \<^verbatim>\<open>s.rstrip(chars)\<close>, \<^verbatim>\<open>s.strip(chars)\<close> for a character predicate.\<close>

definition lstrip_with :: "(char \<Rightarrow> bool) \<Rightarrow> string \<Rightarrow> string" where
  "lstrip_with P s = dropWhile P s"

definition rstrip_with :: "(char \<Rightarrow> bool) \<Rightarrow> string \<Rightarrow> string" where
  "rstrip_with P s = rev (dropWhile P (rev s))"

definition strip_with :: "(char \<Rightarrow> bool) \<Rightarrow> string \<Rightarrow> string" where
  "strip_with P s = rstrip_with P (lstrip_with P s)"

definition strip :: "string \<Rightarrow> string" where
  "strip s = strip_with isspace s"

definition lstrip :: "string \<Rightarrow> string" where
  "lstrip s = lstrip_with isspace s"

definition strip_chars :: "string \<Rightarrow> string \<Rightarrow> string" where
  "strip_chars cs s = strip_with (\<lambda>c. c \<in> set cs) s"

definition rstrip_chars :: "string \<Rightarrow> string \<Rightarrow> string" where
  "rstrip_chars cs s = rstrip_with (\<lambda>c. c \<in> set cs) s"

text \<open>\<^verbatim>\<open>s.startswith(p)\<close> and \<^verbatim>\<open>s.endswith(p)\<close>.\<close>

definition startswith :: "string \<Rightarrow> string \<Rightarrow> bool" where
  "startswith s p = (take (length p) s = p)"

definition endswith :: "string \<Rightarrow> string \<Rightarrow> bool" where
  "endswith s p = (length p \<le> length s \<and> drop (length s - length p) s = p)"

text \<open>ASCII lower-casing: \<^verbatim>\<open>str.lower()\<close> on ASCII letters, and the folding of
  \<^verbatim>\<open>re.IGNORECASE\<close> for a pattern of ASCII letters.\<close>

definition ascii_lower :: "char \<Rightarrow> char" where
  "ascii_lower c =
     (let n = (of_char c :: nat) in if 65 \<le> n \<and> n \<le> 90 then char_of (n + 32) else c)"

definition lower :: "string \<Rightarrow> string" where
  "lower s = map ascii_lower s"

section \<open>URL normalisation\<close>

text \<open>The two quote characters of \<^verbatim>\<open>'\'"'\<close>.\<close>

definition quote_chars :: string where
  "quote_chars = [CHR 0x27, CHR 0x22]"

text \<open>\<^verbatim>\<open>re.match(r"^https?://", raw, re.IGNORECASE)\<close>.\<close>

definition has_http_prefix :: "string \<Rightarrow> bool" where
  "has_http_prefix raw =
     (lower (take 7 raw) = ''http://'' \<or> lower (take 8 raw) = ''https://'')"

definition normalize_url :: "string \<Rightarrow> string" where
  "normalize_url raw0 =
     (let raw = strip raw0;
          raw = rstrip_chars quote_chars (strip_chars quote_chars (strip raw))
      in if raw = [] then []
         else let raw = (if \<not> has_http_prefix raw then ''https://'' @ raw else raw)
              in rstrip_chars ''/'' raw)"

text \<open>The normalised forms that a second normalisation leaves alone: the empty sentinel,
  or a string that still starts with the scheme prefix and does not end in a whitespace
  or quote character.\<close>

definition stable_form :: "string \<Rightarrow> bool" where
  "stable_form v =
     (v = [] \<or> (has_http_prefix v \<and> \<not> isspace (last v) \<and> last v \<notin> set quote_chars))"

section \<open>Index and range selection\<close>

definition isdigit :: "char \<Rightarrow> bool" where
  "isdigit c = (48 \<le> (of_char c :: nat) \<and> (of_char c :: nat) \<le> 57)"

definition digit_val :: "char \<Rightarrow> nat" where
  "digit_val c = of_char c - 48"

text \<open>
  \<^verbatim>\<open>int(s)\<close> in base 10: surrounding whitespace is dropped, then an optional sign, then
  decimal digits, where a single underscore may stand between two digits. Anything else
  raises \<^verbatim>\<open>ValueError\<close>, which is \<^const>\<open>None\<close> here. The whitespace \<^verbatim>\<open>int\<close> drops is
  that of \<^verbatim>\<open>str.strip\<close> without the four separators 0x1C..0x1F. (Interpreters with a
  digit limit, \<^verbatim>\<open>sys.int_max_str_digits\<close>, also reject numerals longer than the limit; the
  limit is not part of this model.)
\<close>

definition int_space :: "char \<Rightarrow> bool" where
  "int_space c = (isspace c \<and> c \<notin> set [CHR 0x1C, CHR 0x1D, CHR 0x1E, CHR 0x1F])"

fun int_digits :: "string \<Rightarrow> nat \<Rightarrow> nat option" where
  "int_digits [] acc = Some acc"
| "int_digits [c] acc = (if isdigit c then Some (10 * acc + digit_val c) else None)"
| "int_digits (c # d # ds) acc =
     (if isdigit c then int_digits (d # ds) (10 * acc + digit_val c)
      else if c = CHR ''_'' \<and> isdigit d then int_digits ds (10 * acc + digit_val d)
      else None)"

definition int_unsigned :: "string \<Rightarrow> nat option" where
  "int_unsigned s =
     (case s of [] \<Rightarrow> None
      | c # cs \<Rightarrow> if isdigit c then int_digits cs (digit_val c) else None)"

definition py_int :: "string \<Rightarrow> int option" where
  "py_int s =
     (case strip_with int_space s of [] \<Rightarrow> None
      | c # cs \<Rightarrow>
          if c = CHR ''-'' then map_option (\<lambda>k. - int k) (int_unsigned cs)
          else if c = CHR ''+'' then map_option int (int_unsigned cs)
          else map_option int (int_unsigned (c # cs)))"

text \<open>\<^verbatim>\<open>s.split(sep)\<close> for a one-character separator: never an empty list.\<close>

fun split_char :: "char \<Rightarrow> string \<Rightarrow> string list" where
  "split_char sep [] = [[]]"
| "split_char sep (x # xs) =
     (if x = sep then [] # split_char sep xs
      else (case split_char sep xs of [] \<Rightarrow> [[x]] | w # ws \<Rightarrow> (x # w) # ws))"

text \<open>One comma-separated token of \<^verbatim>\<open>parse_selection\<close>: the body of its \<^verbatim>\<open>for\<close> loop,
  on the set \<^verbatim>\<open>out\<close>.\<close>

definition add_if_in_range :: "int \<Rightarrow> int \<Rightarrow> int set \<Rightarrow> int set" where
  "add_if_in_range n x out = (if 1 \<le> x \<and> x \<le> n then insert x out else out)"

definition selection_part :: "int \<Rightarrow> string \<Rightarrow> int set \<Rightarrow> int set" where
  "selection_part n part0 out =
     (let part = strip part0 in
      if part = [] then out
      else if CHR ''-'' \<in> set part then
        (let a = takeWhile (\<lambda>c. c \<noteq> CHR ''-'') part;
             b = tl (dropWhile (\<lambda>c. c \<noteq> CHR ''-'') part)
         in case (py_int (strip a), py_int (strip b)) of
              (Some start0, Some end0) \<Rightarrow>
                (let start = (if start0 > end0 then end0 else start0);
                     end = (if start0 > end0 then start0 else end0)
                 in fold (add_if_in_range n) [start..end] out)
            | _ \<Rightarrow> out)
      else (case py_int part of
              Some x \<Rightarrow> add_if_in_range n x out
            | None \<Rightarrow> out))"

definition parse_selection :: "string \<Rightarrow> int \<Rightarrow> int list" where
  "parse_selection sel0 n =
     (let sel = strip sel0 in
      if sel = [] then []
      else sorted_list_of_set (fold (selection_part n) (split_char CHR '','' sel) {}))"

text \<open>\<^verbatim>\<open>str(i)\<close> for an integer: the decimal numeral, with a minus sign when negative. It
  only serves to write the tokens \<^verbatim>\<open>"a-b"\<close> the claims speak of.\<close>

fun str_nat :: "nat \<Rightarrow> string" where
  "str_nat k = (if k < 10 then [char_of (48 + k)] else str_nat (k div 10) @ [char_of (48 + k mod 10)])"

declare str_nat.simps [simp del]

definition str_int :: "int \<Rightarrow> string" where
  "str_int i = (if i < 0 then CHR ''-'' # str_nat (nat (- i)) else str_nat (nat i))"

text \<open>The value a run of decimal digits denotes, read left to right.\<close>

definition dec_step :: "nat \<Rightarrow> char \<Rightarrow> nat" where
  "dec_step acc c = 10 * acc + digit_val c"

section \<open>The interpreter's library and the outside world\<close>

text \<open>
  What the program takes from the Python library and from the network is a parameter of
  the model, one field each: a field returns \<^const>\<open>None\<close> where the library call raises.
\<close>

datatype xml = Elem (etag: string) (etext: "string option") (echildren: "xml list")

datatype html_event = StartTag string "(string \<times> string option) list" | EndTag string | Data string

datatype urlopen_outcome =
    Raises_URLError
  | Raises_Other
  | Response (resp_status: int) (resp_headers: "(string \<times> string) list") (resp_body: bytes)

record pyenv =
  bracketed_host_ok :: "string \<Rightarrow> bool"
  urlopen :: "nat \<Rightarrow> string \<Rightarrow> int \<Rightarrow> urlopen_outcome"
  gzip_decompress :: "bytes \<Rightarrow> bytes option"
  bytes_decode :: "string \<Rightarrow> bytes \<Rightarrow> string option"
  utf8_encode_ignore :: "string \<Rightarrow> bytes"
  et_fromstring_bytes :: "bytes \<Rightarrow> xml option"
  et_fromstring_str :: "string \<Rightarrow> xml option"
  html_feed :: "string \<Rightarrow> html_event list"
  strip_layout_blocks :: "string \<Rightarrow> string"
  main_candidates :: "string \<Rightarrow> string list"
  urljoin :: "string \<Rightarrow> string \<Rightarrow> string option"
  time_now :: "nat \<Rightarrow> int"

section \<open>Splitting and joining URLs\<close>

text \<open>
  \<^verbatim>\<open>urllib.parse.urlsplit\<close> and \<^verbatim>\<open>urlunsplit\<close> as in CPython 3.11, on strings of code points
  below 256 (where the NFKC check of the network location never fires). \<^verbatim>\<open>ValueError\<close>
  is \<^const>\<open>None\<close>; the validation of a bracketed host is the library's, taken from the
  environment.
\<close>

record split_result =
  scheme :: string
  netloc :: string
  path :: string
  query :: string
  fragment :: string

definition is_c0_or_space :: "char \<Rightarrow> bool" where
  "is_c0_or_space c = ((of_char c :: nat) \<le> 32)"

definition is_ascii_alpha :: "char \<Rightarrow> bool" where
  "is_ascii_alpha c =
     (let k = (of_char c :: nat) in (65 \<le> k \<and> k \<le> 90) \<or> (97 \<le> k \<and> k \<le> 122))"

definition is_scheme_char :: "char \<Rightarrow> bool" where
  "is_scheme_char c = (is_ascii_alpha c \<or> isdigit c \<or> c \<in> set ''+-.'')"

text \<open>\<^verbatim>\<open>s.split(sep, 1)\<close> when \<^verbatim>\<open>sep\<close> occurs: the parts before and after its first occurrence.\<close>

definition before_first :: "char \<Rightarrow> string \<Rightarrow> string" where
  "before_first sep s = takeWhile (\<lambda>c. c \<noteq> sep) s"

definition after_first :: "char \<Rightarrow> string \<Rightarrow> string" where
  "after_first sep s = tl (dropWhile (\<lambda>c. c \<noteq> sep) s)"

definition split_scheme :: "string \<Rightarrow> string \<times> string" where
  "split_scheme url =
     (if CHR '':'' \<in> set url \<and> before_first CHR '':'' url \<noteq> [] \<and> is_ascii_alpha (hd url) \<and>
         (\<forall>c\<in>set (before_first CHR '':'' url). is_scheme_char c)
      then (lower (before_first CHR '':'' url), after_first CHR '':'' url)
      else ([], url))"

definition netloc_brackets_ok :: "pyenv \<Rightarrow> string \<Rightarrow> bool" where
  "netloc_brackets_ok E nl =
     (if CHR ''['' \<in> set nl \<and> CHR '']'' \<in> set nl
      then bracketed_host_ok E (before_first CHR '']'' (after_first CHR ''['' nl))
      else CHR ''['' \<notin> set nl \<and> CHR '']'' \<notin> set nl)"

definition urlsplit :: "pyenv \<Rightarrow> string \<Rightarrow> split_result option" where
  "urlsplit E url0 =
     (let url = filter (\<lambda>c. c \<notin> set [CHR 0x09, CHR 0x0D, CHR 0x0A]) (lstrip_with is_c0_or_space url0);
          (sch, url) = split_scheme url;
          (nl, url) = (if take 2 url = ''//''
                       then (takeWhile (\<lambda>c. c \<notin> set ''/?#'') (drop 2 url),
                             dropWhile (\<lambda>c. c \<notin> set ''/?#'') (drop 2 url))
                       else ([], url))
      in if \<not> netloc_brackets_ok E nl then None
         else
           let (url, frag) = (if CHR ''#'' \<in> set url
                              then (before_first CHR ''#'' url, after_first CHR ''#'' url)
                              else (url, []));
               (url, qry) = (if CHR ''?'' \<in> set url
                             then (before_first CHR ''?'' url, after_first CHR ''?'' url)
                             else (url, []))
           in Some \<lparr>scheme = sch, netloc = nl, path = url, query = qry, fragment = frag\<rparr>)"

definition uses_netloc :: "string list" where
  "uses_netloc = ['''', ''ftp'', ''http'', ''gopher'', ''nntp'', ''telnet'', ''imap'', ''wais'',
     ''file'', ''mms'', ''https'', ''shttp'', ''snews'', ''prospero'', ''rtsp'', ''rtsps'',
     ''rtspu'', ''rsync'', ''svn'', ''svn+ssh'', ''sftp'', ''nfs'', ''git'', ''git+ssh'',
     ''ws'', ''wss'']"

definition urlunsplit :: "split_result \<Rightarrow> string" where
  "urlunsplit p =
     (let url = path p;
          url = (if netloc p \<noteq> [] \<or> (scheme p \<noteq> [] \<and> scheme p \<in> set uses_netloc) \<or>
                    take 2 url = ''//''
                 then ''//'' @ netloc p @ (if url \<noteq> [] \<and> take 1 url \<noteq> ''/'' then ''/'' @ url else url)
                 else url);
          url = (if scheme p \<noteq> [] then scheme p @ '':'' @ url else url);
          url = (if query p \<noteq> [] then url @ ''?'' @ query p else url);
          url = (if fragment p \<noteq> [] then url @ ''#'' @ fragment p else url)
      in url)"

definition split_root_and_base :: "pyenv \<Rightarrow> string \<Rightarrow> (string \<times> string) option" where
  "split_root_and_base E url =
     (case urlsplit E url of None \<Rightarrow> None
      | Some parts \<Rightarrow>
          let root = urlunsplit \<lparr>scheme = scheme parts, netloc = netloc parts, path = [],
                                 query = [], fragment = []\<rparr>;
              base = urlunsplit \<lparr>scheme = scheme parts, netloc = netloc parts, path = path parts,
                                 query = [], fragment = []\<rparr>
          in Some (root, rstrip_chars ''/'' base))"

section \<open>Slugs\<close>

definition slug_safe :: "char \<Rightarrow> bool" where
  "slug_safe c = (is_ascii_alpha c \<or> isdigit c \<or> c \<in> set ''._-'')"

text \<open>\<^verbatim>\<open>re.sub(r"[^A-Za-z0-9._-]+", "_", s)\<close>: every maximal run of other characters becomes
  one underscore. The flag says that the run has already been replaced.\<close>

fun sub_unsafe_runs :: "bool \<Rightarrow> string \<Rightarrow> string" where
  "sub_unsafe_runs in_run [] = []"
| "sub_unsafe_runs in_run (c # cs) =
     (if slug_safe c then c # sub_unsafe_runs False cs
      else if in_run then sub_unsafe_runs True cs
      else CHR ''_'' # sub_unsafe_runs True cs)"

definition safe_slug :: "string \<Rightarrow> string" where
  "safe_slug s0 =
     (let s = strip_chars ''_'' (sub_unsafe_runs False s0)
      in if s = [] then ''site'' else s)"

text \<open>\<^verbatim>\<open>s.replace(":", "_")\<close>.\<close>

definition replace_colon :: "string \<Rightarrow> string" where
  "replace_colon s = map (\<lambda>c. if c = CHR '':'' then CHR ''_'' else c) s"

definition slug_from_url :: "pyenv \<Rightarrow> string \<Rightarrow> string option" where
  "slug_from_url E url =
     (case urlsplit E url of None \<Rightarrow> None
      | Some parts \<Rightarrow>
          let host = replace_colon (netloc parts);
              p = strip_chars ''/'' (path parts)
          in if p \<noteq> [] then Some (safe_slug (host @ ''__'' @ p))
             else Some (safe_slug host))"

definition url_to_page_slug :: "pyenv \<Rightarrow> string \<Rightarrow> string option" where
  "url_to_page_slug E url =
     (case urlsplit E url of None \<Rightarrow> None
      | Some parts \<Rightarrow>
          let p = (if strip_chars ''/'' (path parts) \<noteq> [] then strip_chars ''/'' (path parts)
                   else ''index'');
              slug = safe_slug p
          in Some (if length slug > 140 then take 140 slug else slug))"


section \<open>Example environments\<close>

text \<open>An environment without network: every request raises, bracketed hosts are
  rejected, codecs are the identity and no document parses.\<close>

definition offline_env :: pyenv where
  "offline_env =
     \<lparr>bracketed_host_ok = (\<lambda>_. False), urlopen = (\<lambda>_ _ _. Raises_URLError),
      gzip_decompress = (\<lambda>_. None), bytes_decode = (\<lambda>_ b. Some b),
      utf8_encode_ignore = (\<lambda>s. s), et_fromstring_bytes = (\<lambda>_. None),
      et_fromstring_str = (\<lambda>_. None), html_feed = (\<lambda>_. []),
      strip_layout_blocks = (\<lambda>s. s), main_candidates = (\<lambda>_. []),
      urljoin = (\<lambda>_ _. None), time_now = (\<lambda>_. 0)\<rparr>"

section \<open>HTML to markdown-ish text\<close>

text \<open>
  \<^verbatim>\<open>MarkdownishParser\<close>: the parser object is a record, each handler a function on it.
  The tokenizer of \<^verbatim>\<open>html.parser.HTMLParser\<close> (which calls the handlers, tag names already in
  lower case) is the environment's \<^const>\<open>html_feed\<close>.
\<close>

record md_parser =
  out :: "string list"
  ignore_depth :: nat
  in_pre :: bool
  in_code_inline :: bool
  pending_heading :: "int option"
  li_prefix_pending :: bool

definition md_init :: md_parser where
  "md_init = \<lparr>out = [], ignore_depth = 0, in_pre = False, in_code_inline = False,
               pending_heading = None, li_prefix_pending = False\<rparr>"

definition IGNORE_TAGS :: "string list" where
  "IGNORE_TAGS = [''script'', ''style'', ''noscript'']"

definition heading_tags :: "string list" where
  "heading_tags = [''h1'', ''h2'', ''h3'', ''h4'', ''h5'', ''h6'']"

definition out_append :: "string \<Rightarrow> md_parser \<Rightarrow> md_parser" where
  "out_append s p = p\<lparr>out := out p @ [s]\<rparr>"

definition md_handle_starttag :: "string \<Rightarrow> md_parser \<Rightarrow> md_parser" where
  "md_handle_starttag tag0 p =
     (let tag = lower tag0 in
      if tag \<in> set IGNORE_TAGS then p\<lparr>ignore_depth := ignore_depth p + 1\<rparr>
      else if ignore_depth p > 0 then p
      else if tag \<in> set [''p'', ''div'', ''section'', ''article'', ''header'', ''table'', ''tr'']
        then out_append [CHR 0x0A, CHR 0x0A] p
      else if tag \<in> set [''br''] then out_append [CHR 0x0A] p
      else if tag \<in> set [''ul'', ''ol''] then out_append [CHR 0x0A, CHR 0x0A] p
      else if tag = ''li'' then (out_append (CHR 0x0A # ''- '') p)\<lparr>li_prefix_pending := True\<rparr>
      else if tag \<in> set heading_tags
        then (out_append [CHR 0x0A, CHR 0x0A] p)\<lparr>pending_heading := Some (int (digit_val (tag ! 1)))\<rparr>
      else if tag = ''pre''
        then out_append ([CHR 0x0A, CHR 0x0A] @ ''```text'' @ [CHR 0x0A]) (p\<lparr>in_pre := True\<rparr>)
      else if tag = ''code''
        then (if \<not> in_pre p then out_append ''`'' (p\<lparr>in_code_inline := True\<rparr>) else p)
      else p)"

definition md_handle_endtag :: "string \<Rightarrow> md_parser \<Rightarrow> md_parser" where
  "md_handle_endtag tag0 p =
     (let tag = lower tag0 in
      if tag \<in> set IGNORE_TAGS
        then (if ignore_depth p > 0 then p\<lparr>ignore_depth := ignore_depth p - 1\<rparr> else p)
      else if ignore_depth p > 0 then p
      else if tag \<in> set [''p'', ''div'', ''section'', ''article'', ''header'']
        then out_append [CHR 0x0A, CHR 0x0A] p
      else if tag \<in> set heading_tags
        then (out_append [CHR 0x0A, CHR 0x0A] p)\<lparr>pending_heading := None\<rparr>
      else if tag = ''pre''
        then out_append (CHR 0x0A # ''```'' @ [CHR 0x0A, CHR 0x0A]) (p\<lparr>in_pre := False\<rparr>)
      else if tag = ''code''
        then (if in_code_inline p then (out_append ''`'' p)\<lparr>in_code_inline := False\<rparr> else p)
      else if tag = ''li'' then out_append [CHR 0x0A] p
      else p)"

text \<open>\<^verbatim>\<open>re.sub(r"\s+", " ", data)\<close>: the flag says that the current run already gave its space.\<close>

fun collapse_ws :: "bool \<Rightarrow> string \<Rightarrow> string" where
  "collapse_ws in_run [] = []"
| "collapse_ws in_run (c # cs) =
     (if isspace c then (if in_run then collapse_ws True cs else CHR '' '' # collapse_ws True cs)
      else c # collapse_ws False cs)"

text \<open>\<^verbatim>\<open>"#" * max(1, min(6, level))\<close>.\<close>

definition heading_prefix :: "int \<Rightarrow> string" where
  "heading_prefix level = replicate (nat (max 1 (min 6 level))) CHR ''#''"

definition md_handle_data :: "string \<Rightarrow> md_parser \<Rightarrow> md_parser" where
  "md_handle_data data p =
     (if ignore_depth p > 0 then p
      else if data = [] then p
      else
        let p = (case pending_heading p of
                   Some level \<Rightarrow>
                     if \<not> in_pre p then
                       (let prefix = heading_prefix level in
                        if \<not> (out p \<noteq> [] \<and> startswith (last (out p)) (prefix @ '' ''))
                        then out_append (prefix @ '' '') p else p)
                     else p
                 | None \<Rightarrow> p)
        in if in_pre p then out_append data p
           else
             let s = collapse_ws False data in
             if li_prefix_pending p then out_append (lstrip s) (p\<lparr>li_prefix_pending := False\<rparr>)
             else out_append s p)"

fun md_handle :: "html_event \<Rightarrow> md_parser \<Rightarrow> md_parser" where
  "md_handle (StartTag tag attrs) p = md_handle_starttag tag p"
| "md_handle (EndTag tag) p = md_handle_endtag tag p"
| "md_handle (Data d) p = md_handle_data d p"

text \<open>\<^verbatim>\<open>re.sub(r"[ \t]+\n", "\n", txt)\<close>: blanks are held back until the next character shows
  whether a newline follows them.\<close>

fun drop_blanks_before_newline :: "string \<Rightarrow> string \<Rightarrow> string" where
  "drop_blanks_before_newline pend [] = pend"
| "drop_blanks_before_newline pend (c # cs) =
     (if c = CHR '' '' \<or> c = CHR 0x09 then drop_blanks_before_newline (pend @ [c]) cs
      else if c = CHR 0x0A then c # drop_blanks_before_newline [] cs
      else pend @ c # drop_blanks_before_newline [] cs)"

text \<open>\<^verbatim>\<open>re.sub(r"\n{4,}", "\n\n\n", txt)\<close>: the counter is the length of the current run of
  newlines.\<close>

definition newline_run :: "nat \<Rightarrow> string" where
  "newline_run k = replicate (if k \<ge> 4 then 3 else k) (CHR 0x0A)"

fun squeeze_newlines :: "nat \<Rightarrow> string \<Rightarrow> string" where
  "squeeze_newlines k [] = newline_run k"
| "squeeze_newlines k (c # cs) =
     (if c = CHR 0x0A then squeeze_newlines (Suc k) cs
      else newline_run k @ c # squeeze_newlines 0 cs)"

definition get_text :: "md_parser \<Rightarrow> string" where
  "get_text p =
     strip (squeeze_newlines 0 (drop_blanks_before_newline [] (concat (out p)))) @ [CHR 0x0A]"

text \<open>\<^verbatim>\<open>extract_main_html\<close>: the longest candidate, the first one among equals, as \<^verbatim>\<open>max\<close>
  with \<^verbatim>\<open>key=len\<close> picks it.\<close>

fun longest :: "string \<Rightarrow> string list \<Rightarrow> string" where
  "longest best [] = best"
| "longest best (c # cs) = longest (if length c > length best then c else best) cs"

definition extract_main_html :: "pyenv \<Rightarrow> string \<Rightarrow> string" where
  "extract_main_html E html =
     (case main_candidates E html of [] \<Rightarrow> html | c # cs \<Rightarrow> longest c cs)"

definition html_to_markdownish :: "pyenv \<Rightarrow> string \<Rightarrow> string" where
  "html_to_markdownish E html0 =
     (let html = strip_layout_blocks E html0;
          main = extract_main_html E html
      in get_text (fold md_handle (html_feed E main) md_init))"

section \<open>The world the program acts on\<close>

text \<open>
  The state outside the interpreter: the requests sent so far, the sleeps taken (in
  milliseconds, so that \<^verbatim>\<open>0.4\<close> seconds is 400 and \<^verbatim>\<open>DELAY_SEC\<close> is 150), and the file
  system below the working directory, a path being the list of its components. What
  request number \<^verbatim>\<open>k\<close> answers is the environment's \<^const>\<open>urlopen\<close>.
\<close>

type_synonym fpath = "string list"

record world =
  requests :: "string list"
  sleeps :: "nat list"
  dirs :: "fpath set"
  files :: "fpath \<rightharpoonup> bytes"

record fetch_result =
  url :: string
  status :: int
  headers :: "string \<rightharpoonup> string"
  body :: bytes

definition TIMEOUT_SEC :: int where
  "TIMEOUT_SEC = 30"

definition DELAY_MS :: nat where
  "DELAY_MS = 150"

definition MAX_PAGES_DEFAULT :: nat where
  "MAX_PAGES_DEFAULT = 250"

section \<open>Fetching\<close>

text \<open>\<^verbatim>\<open>p in s\<close> for strings.\<close>

fun contains :: "string \<Rightarrow> string \<Rightarrow> bool" where
  "contains [] p = (p = [])"
| "contains (c # cs) p = (startswith (c # cs) p \<or> contains cs p)"

text \<open>\<^verbatim>\<open>headers.get(key, "")\<close>.\<close>

definition header_get :: "(string \<rightharpoonup> string) \<Rightarrow> string \<Rightarrow> string" where
  "header_get h key = (case h key of None \<Rightarrow> [] | Some v \<Rightarrow> v)"

text \<open>\<^verbatim>\<open>try: body = gzip.decompress(body) except Exception: pass\<close>.\<close>

definition try_gunzip :: "pyenv \<Rightarrow> bytes \<Rightarrow> bytes" where
  "try_gunzip E b = (case gzip_decompress E b of Some b' \<Rightarrow> b' | None \<Rightarrow> b)"

text \<open>The body of the \<^verbatim>\<open>with urlopen(...)\<close> block, for a response that arrived.\<close>

definition make_fetch_result ::
  "pyenv \<Rightarrow> string \<Rightarrow> int \<Rightarrow> (string \<times> string) list \<Rightarrow> bytes \<Rightarrow> fetch_result" where
  "make_fetch_result E u st items b0 =
     (let hdrs = map_of (rev items);
          ce = lower (header_get hdrs ''Content-Encoding'');
          b = (if contains ce ''gzip'' then try_gunzip E b0 else b0);
          b = (if endswith u ''.gz'' \<and> \<not> startswith b ''<?xml'' then try_gunzip E b else b)
      in \<lparr>url = u, status = st, headers = hdrs, body = b\<rparr>)"

text \<open>The backoff after the failed attempt number \<^verbatim>\<open>attempt\<close> (from 0):
  \<^verbatim>\<open>0.4 * (attempt + 1)\<close> seconds.\<close>

definition backoff_ms :: "nat \<Rightarrow> nat" where
  "backoff_ms attempt = 400 * (attempt + 1)"

text \<open>The loop \<^verbatim>\<open>for attempt in range(retries + 1)\<close> of \<^verbatim>\<open>fetch\<close>, on the attempts left. Both
  \<^verbatim>\<open>except\<close> clauses sleep and go on; after the last attempt the result is \<^const>\<open>None\<close>.\<close>

fun fetch_attempts ::
  "pyenv \<Rightarrow> string \<Rightarrow> int \<Rightarrow> nat list \<Rightarrow> world \<Rightarrow> fetch_result option \<times> world" where
  "fetch_attempts E u timeout [] w = (None, w)"
| "fetch_attempts E u timeout (attempt # rest) w =
     (let w1 = w\<lparr>requests := requests w @ [u]\<rparr> in
      case urlopen E (length (requests w)) u timeout of
        Response st items b \<Rightarrow> (Some (make_fetch_result E u st items b), w1)
      | Raises_URLError \<Rightarrow>
          fetch_attempts E u timeout rest (w1\<lparr>sleeps := sleeps w1 @ [backoff_ms attempt]\<rparr>)
      | Raises_Other \<Rightarrow>
          fetch_attempts E u timeout rest (w1\<lparr>sleeps := sleeps w1 @ [backoff_ms attempt]\<rparr>))"

definition fetch_with ::
  "pyenv \<Rightarrow> string \<Rightarrow> int \<Rightarrow> int \<Rightarrow> world \<Rightarrow> fetch_result option \<times> world" where
  "fetch_with E u timeout retries w = fetch_attempts E u timeout [0..<nat (retries + 1)] w"

text \<open>\<^verbatim>\<open>fetch(url)\<close> with the default arguments.\<close>

definition fetch :: "pyenv \<Rightarrow> string \<Rightarrow> world \<Rightarrow> fetch_result option \<times> world" where
  "fetch E u w = fetch_with E u TIMEOUT_SEC 2 w"

definition looks_textlike :: "(string \<rightharpoonup> string) \<Rightarrow> bytes \<Rightarrow> bool" where
  "looks_textlike hdrs b =
     (let ctype = lower (header_get hdrs ''Content-Type'') in
      if contains ctype ''text/'' \<or> contains ctype ''application/json'' \<or>
         contains ctype ''application/xml'' \<or> contains ctype ''application/xhtml'' then True
      else if CHR 0x00 \<in> set (take 2048 b) then False
      else True)"

section \<open>Decoding\<close>

datatype py_exception = ValueError | UnicodeError

text \<open>\<^verbatim>\<open>re.search(r"charset=([A-Za-z0-9._-]+)", ctype, re.IGNORECASE)\<close>: the group of the leftmost
  match.\<close>

fun find_charset :: "string \<Rightarrow> string option" where
  "find_charset [] = None"
| "find_charset (c # cs) =
     (if lower (take 8 (c # cs)) = ''charset='' \<and> takeWhile slug_safe (drop 8 (c # cs)) \<noteq> []
      then Some (takeWhile slug_safe (drop 8 (c # cs)))
      else find_charset cs)"

text \<open>
  \<^verbatim>\<open>decode_bytes\<close>. Every \<^verbatim>\<open>body.decode\<close> is the environment's \<^const>\<open>bytes_decode\<close>, which may
  raise; the two \<^verbatim>\<open>try\<close> blocks catch that, the last call (the default codec, UTF-8) is not
  guarded.
\<close>

definition decode_bytes :: "pyenv \<Rightarrow> bytes \<Rightarrow> (string \<rightharpoonup> string) \<Rightarrow> py_exception + string" where
  "decode_bytes E b hdrs =
     (let ctype = header_get hdrs ''Content-Type'';
          fallback = (case bytes_decode E ''utf-8'' b of Some s \<Rightarrow> Inr s
                      | None \<Rightarrow> (case bytes_decode E ''utf-8'' b of Some s \<Rightarrow> Inr s
                                  | None \<Rightarrow> Inl UnicodeError))
      in case find_charset ctype of
           Some enc \<Rightarrow> (case bytes_decode E (strip enc) b of Some s \<Rightarrow> Inr s | None \<Rightarrow> fallback)
         | None \<Rightarrow> fallback)"

text \<open>A world in which nothing has happened yet.\<close>

definition empty_world :: world where
  "empty_world = \<lparr>requests = [], sleeps = [], dirs = {}, files = Map.empty\<rparr>"

text \<open>An attempt fails when \<^verbatim>\<open>urlopen\<close> (or reading the response) raises.\<close>

fun attempt_fails :: "urlopen_outcome \<Rightarrow> bool" where
  "attempt_fails (Response st items b) = False"
| "attempt_fails Raises_URLError = True"
| "attempt_fails Raises_Other = True"

section \<open>The sitemap probe\<close>

text \<open>
  An XML document is the tree \<^verbatim>\<open>xml.etree.ElementTree\<close> builds: tags carry their namespace
  as \<^verbatim>\<open>{uri}name\<close>, \<^verbatim>\<open>text\<close> is \<^verbatim>\<open>None\<close> or a string. \<^verbatim>\<open>el.find(tag)\<close> and
  \<^verbatim>\<open>el.findall(tag)\<close> with a plain qualified tag look at the direct children with that tag
  (the wildcard forms of ElementPath are not modelled).
\<close>

definition ns_of_tag :: "string \<Rightarrow> string" where
  "ns_of_tag t = (if startswith t ''{'' then before_first CHR ''}'' t @ ''}'' else [])"

definition findall_children :: "string \<Rightarrow> xml \<Rightarrow> xml list" where
  "findall_children t el = filter (\<lambda>c. etag c = t) (echildren el)"

definition find_child :: "string \<Rightarrow> xml \<Rightarrow> xml option" where
  "find_child t el = (case findall_children t el of [] \<Rightarrow> None | c # cs \<Rightarrow> Some c)"

text \<open>The local function \<^verbatim>\<open>get_loc\<close>.\<close>

definition get_loc :: "string \<Rightarrow> xml \<Rightarrow> string" where
  "get_loc ns el =
     (case find_child (ns @ ''loc'') el of
        Some loc \<Rightarrow> strip (case etext loc of Some t \<Rightarrow> t | None \<Rightarrow> [])
      | None \<Rightarrow> [])"

text \<open>The loop \<^verbatim>\<open>for uel in el.findall(ns + "url")\<close>, appending to \<^verbatim>\<open>urls\<close>.\<close>

fun url_loop :: "string \<Rightarrow> xml list \<Rightarrow> string list \<Rightarrow> string list" where
  "url_loop ns [] urls = urls"
| "url_loop ns (uel # rest) urls =
     (case find_child (ns @ ''loc'') uel of
        Some loc2 \<Rightarrow>
          (case etext loc2 of
             Some t \<Rightarrow> if t \<noteq> [] then url_loop ns rest (urls @ [strip t]) else url_loop ns rest urls
           | None \<Rightarrow> url_loop ns rest urls)
      | None \<Rightarrow> url_loop ns rest urls)"

text \<open>A fetched resource is usable when \<^verbatim>\<open>not r or r.status != 200 or not r.body\<close> is false.\<close>

definition usable :: "fetch_result option \<Rightarrow> bool" where
  "usable r = (case r of None \<Rightarrow> False | Some fr \<Rightarrow> status fr = 200 \<and> body fr \<noteq> [])"

text \<open>The loop over the members of a sitemap index. Each \<^verbatim>\<open>continue\<close> goes on with the
  rest; a member document is parsed inside the \<^verbatim>\<open>try\<close>, and only its own \<^verbatim>\<open>url\<close> children
  are read.\<close>

fun index_loop ::
  "pyenv \<Rightarrow> string \<Rightarrow> xml list \<Rightarrow> string list \<Rightarrow> world \<Rightarrow> string list \<times> world" where
  "index_loop E ns [] urls w = (urls, w)"
| "index_loop E ns (sm # rest) urls w =
     (let loc = get_loc ns sm in
      if loc = [] then index_loop E ns rest urls w
      else
        let (sub, w1) = fetch E loc w in
        if \<not> usable sub then index_loop E ns rest urls w1
        else
          (case decode_bytes E (body (the sub)) (headers (the sub)) of
             Inl e \<Rightarrow> index_loop E ns rest urls w1
           | Inr sub_text \<Rightarrow>
               (case et_fromstring_bytes E (utf8_encode_ignore E sub_text) of
                  None \<Rightarrow> index_loop E ns rest urls w1
                | Some sub_root \<Rightarrow>
                    let sub_ns = ns_of_tag (etag sub_root) in
                    index_loop E ns rest
                      (url_loop sub_ns (findall_children (sub_ns @ ''url'') sub_root) urls) w1)))"

text \<open>The collection stage: what \<^verbatim>\<open>urls\<close> holds before filtering, for a parsed root.\<close>

definition collect_urls :: "pyenv \<Rightarrow> xml \<Rightarrow> world \<Rightarrow> string list \<times> world" where
  "collect_urls E root_el w =
     (let ns = ns_of_tag (etag root_el) in
      if endswith (etag root_el) ''sitemapindex''
      then index_loop E ns (findall_children (ns @ ''sitemap'') root_el) [] w
      else (url_loop ns (findall_children (ns @ ''url'') root_el) [], w))"

text \<open>The loop over the four candidates: it stops (\<^verbatim>\<open>break\<close>) at the first one that is
  fetched and decoded.\<close>

fun first_sitemap_text :: "pyenv \<Rightarrow> string list \<Rightarrow> world \<Rightarrow> string option \<times> world" where
  "first_sitemap_text E [] w = (None, w)"
| "first_sitemap_text E (s # rest) w =
     (let (r, w1) = fetch E s w in
      if \<not> usable r then first_sitemap_text E rest w1
      else
        (case decode_bytes E (body (the r)) (headers (the r)) of
           Inr t \<Rightarrow> (Some t, w1)
         | Inl e \<Rightarrow> first_sitemap_text E rest w1))"

text \<open>The two nested \<^verbatim>\<open>try\<close> blocks around \<^verbatim>\<open>ET.fromstring\<close>: the encoded text first, then
  the text itself; \<^const>\<open>None\<close> when both raise.\<close>

definition parse_xml_text :: "pyenv \<Rightarrow> string \<Rightarrow> xml option" where
  "parse_xml_text E t =
     (case et_fromstring_bytes E (utf8_encode_ignore E t) of
        Some el \<Rightarrow> Some el
      | None \<Rightarrow> et_fromstring_str E t)"

text \<open>The filter and dedupe loop. \<^verbatim>\<open>seen\<close> always holds the elements of \<^verbatim>\<open>out\<close>, so the model
  keeps \<^verbatim>\<open>out\<close> only (as \<open>out_list\<close>). \<^verbatim>\<open>urlsplit\<close> is not guarded here: its \<^verbatim>\<open>ValueError\<close> leaves the
  function.\<close>

fun sitemap_filter ::
  "pyenv \<Rightarrow> string \<Rightarrow> string \<Rightarrow> string list \<Rightarrow> string list \<Rightarrow> py_exception + string list" where
  "sitemap_filter E base_norm base_path [] out_list = Inr out_list"
| "sitemap_filter E base_norm base_path (u0 # rest) out_list =
     (let u = normalize_url u0 in
      if u = [] then sitemap_filter E base_norm base_path rest out_list
      else
        (case urlsplit E u of
           None \<Rightarrow> Inl ValueError
         | Some pu \<Rightarrow>
             (case urlsplit E base_norm of
                None \<Rightarrow> Inl ValueError
              | Some pb \<Rightarrow>
                  if netloc pu \<noteq> netloc pb then sitemap_filter E base_norm base_path rest out_list
                  else if base_path \<noteq> [] \<and> \<not> startswith (path pu) base_path
                    then sitemap_filter E base_norm base_path rest out_list
                  else if u \<notin> set out_list then sitemap_filter E base_norm base_path rest (out_list @ [u])
                  else sitemap_filter E base_norm base_path rest out_list)))"

definition fetch_sitemap_urls ::
  "pyenv \<Rightarrow> string \<Rightarrow> world \<Rightarrow> (py_exception + string list) \<times> world" where
  "fetch_sitemap_urls E base_url w =
     (case split_root_and_base E base_url of
        None \<Rightarrow> (Inl ValueError, w)
      | Some (root, base) \<Rightarrow>
          (case urlsplit E base of
             None \<Rightarrow> (Inl ValueError, w)
           | Some bp \<Rightarrow>
               let base_path = rstrip_chars ''/'' (path bp);
                   sitemap_candidates = [base @ ''/sitemap.xml'', root @ ''/sitemap.xml'',
                                         base @ ''/sitemap.xml.gz'', root @ ''/sitemap.xml.gz''];
                   (xml_text, w1) = first_sitemap_text E sitemap_candidates w
               in (case xml_text of
                     None \<Rightarrow> (Inr [], w1)
                   | Some t \<Rightarrow>
                       if t = [] then (Inr [], w1)
                       else
                         (case parse_xml_text E t of
                            None \<Rightarrow> (Inr [], w1)
                          | Some root_el \<Rightarrow>
                              let (urls, w2) = collect_urls E root_el w1
                              in (sitemap_filter E (rstrip_chars ''/'' base) base_path urls [], w2)))))"

section \<open>The sitemap index, in the words of the specification\<close>

text \<open>
  The \<^verbatim>\<open><url><loc>\<close> entries of a sitemap document: for each \<^verbatim>\<open>url\<close> child of the root (in
  the root's namespace), the stripped text of its first \<^verbatim>\<open>loc\<close> child, when it has one with
  text.
\<close>

definition loc_entry :: "string \<Rightarrow> xml \<Rightarrow> string list" where
  "loc_entry ns uel =
     (case find_child (ns @ ''loc'') uel of
        None \<Rightarrow> []
      | Some loc \<Rightarrow> (case etext loc of None \<Rightarrow> [] | Some t \<Rightarrow> if t = [] then [] else [strip t]))"

definition url_loc_entries :: "xml \<Rightarrow> string list" where
  "url_loc_entries el =
     concat (map (loc_entry (ns_of_tag (etag el)))
                 (findall_children (ns_of_tag (etag el) @ ''url'') el))"

text \<open>The locations a sitemap index refers to: the non-empty \<^verbatim>\<open><sitemap><loc>\<close> of its
  members, in document order.\<close>

definition member_locs :: "xml \<Rightarrow> string list" where
  "member_locs root_el =
     filter (\<lambda>l. l \<noteq> [])
       (map (get_loc (ns_of_tag (etag root_el)))
            (findall_children (ns_of_tag (etag root_el) @ ''sitemap'') root_el))"

text \<open>The leaf sitemap at a location: the document a fetch of it gives, when it is usable,
  decodes and parses; and its entries.\<close>

definition leaf_document :: "pyenv \<Rightarrow> string \<Rightarrow> xml option" where
  "leaf_document E loc =
     (let r = fst (fetch E loc empty_world) in
      if usable r then
        (case decode_bytes E (body (the r)) (headers (the r)) of
           Inl e \<Rightarrow> None
         | Inr t \<Rightarrow> et_fromstring_bytes E (utf8_encode_ignore E t))
      else None)"

definition leaf_entries :: "pyenv \<Rightarrow> string \<Rightarrow> string list" where
  "leaf_entries E loc = (case leaf_document E loc of None \<Rightarrow> [] | Some el \<Rightarrow> url_loc_entries el)"

text \<open>A network whose answer to a request does not depend on when it is asked.\<close>

definition stable_network :: "pyenv \<Rightarrow> bool" where
  "stable_network E = (\<forall>k u t. urlopen E k u t = urlopen E 0 u t)"

section \<open>Example sites\<close>

definition sm_ns :: string where
  "sm_ns = ''{http://www.sitemaps.org/schemas/sitemap/0.9}''"

text \<open>A \<^verbatim>\<open>urlset\<close> and a \<^verbatim>\<open>sitemapindex\<close> with the given locations, as parsed trees.\<close>

definition urlset_doc :: "string list \<Rightarrow> xml" where
  "urlset_doc locs =
     Elem (sm_ns @ ''urlset'') None
       (map (\<lambda>l. Elem (sm_ns @ ''url'') None [Elem (sm_ns @ ''loc'') (Some l) []]) locs)"

definition sitemapindex_doc :: "string list \<Rightarrow> xml" where
  "sitemapindex_doc locs =
     Elem (sm_ns @ ''sitemapindex'') None
       (map (\<lambda>l. Elem (sm_ns @ ''sitemap'') None [Elem (sm_ns @ ''loc'') (Some l) []]) locs)"

text \<open>The same documents as they are served: the XML text, with the namespace declared on
  the root element and no white space between the elements (so the containers have no
  text). \<^verbatim>\<open>ET.fromstring\<close> of these texts gives the trees above.\<close>

definition xmlns_attr :: string where
  "xmlns_attr = '' xmlns='' @ [CHR 0x22] @ ''http://www.sitemaps.org/schemas/sitemap/0.9'' @ [CHR 0x22]"

definition urlset_xml :: "string list \<Rightarrow> bytes" where
  "urlset_xml locs =
     ''<urlset'' @ xmlns_attr @ ''>'' @
     concat (map (\<lambda>l. ''<url><loc>'' @ l @ ''</loc></url>'') locs) @ ''</urlset>''"

definition sitemapindex_xml :: "string list \<Rightarrow> bytes" where
  "sitemapindex_xml locs =
     ''<sitemapindex'' @ xmlns_attr @ ''>'' @
     concat (map (\<lambda>l. ''<sitemap><loc>'' @ l @ ''</loc></sitemap>'') locs) @ ''</sitemapindex>''"

text \<open>A site given by a table from URL to the body served there (status 200, no headers)
  and a table from body to the tree it parses to; every other request fails and every
  other text is not XML. Codecs are the identity.\<close>

definition site_env :: "(string \<times> bytes) list \<Rightarrow> (bytes \<times> xml) list \<Rightarrow> pyenv" where
  "site_env pages docs =
     offline_env\<lparr>
       urlopen := (\<lambda>k u t. case map_of pages u of Some b \<Rightarrow> Response 200 [] b
                            | None \<Rightarrow> Raises_URLError),
       et_fromstring_bytes := map_of docs,
       et_fromstring_str := map_of docs\<rparr>"

text \<open>A site whose root sitemap is an index of two members: a leaf with two pages, and a
  second index that refers to a further leaf.\<close>

definition index_site :: pyenv where
  "index_site =
     site_env
       [(''https://example.com/sitemap.xml'',
         sitemapindex_xml [''https://example.com/sm-a.xml'', ''https://example.com/sm-b.xml'']),
        (''https://example.com/sm-a.xml'',
         urlset_xml [''https://example.com/p1'', ''https://example.com/p2'']),
        (''https://example.com/sm-b.xml'', sitemapindex_xml [''https://example.com/sm-c.xml'']),
        (''https://example.com/sm-c.xml'', urlset_xml [''https://example.com/p3''])]
       [(sitemapindex_xml [''https://example.com/sm-a.xml'', ''https://example.com/sm-b.xml''],
         sitemapindex_doc [''https://example.com/sm-a.xml'', ''https://example.com/sm-b.xml'']),
        (urlset_xml [''https://example.com/p1'', ''https://example.com/p2''],
         urlset_doc [''https://example.com/p1'', ''https://example.com/p2'']),
        (sitemapindex_xml [''https://example.com/sm-c.xml''],
         sitemapindex_doc [''https://example.com/sm-c.xml'']),
        (urlset_xml [''https://example.com/p3''], urlset_doc [''https://example.com/p3''])]"

text \<open>A documentation site under \<^verbatim>\<open>/docs\<close> whose sitemap also lists a page of the sibling
  directory \<^verbatim>\<open>/docs-old\<close>.\<close>

definition docs_site :: pyenv where
  "docs_site =
     site_env
       [(''https://example.com/docs/sitemap.xml'',
         urlset_xml [''https://example.com/docs-old/x'', ''https://example.com/docs/a/''])]
       [(urlset_xml [''https://example.com/docs-old/x'', ''https://example.com/docs/a/''],
         urlset_doc [''https://example.com/docs-old/x'', ''https://example.com/docs/a/''])]"

text \<open>A site that answers the sitemap URL under the base path \<^verbatim>\<open>/docs\<close> with an HTML error
  page (status 200; its \<^verbatim>\<open>br\<close> is not closed, so it is not well-formed XML and
  \<^verbatim>\<open>ET.fromstring\<close> raises), and serves a well-formed sitemap without namespace at the root.\<close>

definition broken_first_site :: pyenv where
  "broken_first_site =
     site_env
       [(''https://example.com/docs/sitemap.xml'', ''<html><body><p>Not found<br></body></html>''),
        (''https://example.com/sitemap.xml'',
         ''<urlset><url><loc>https://example.com/docs/v2/a</loc></url></urlset>'')]
       [(''<urlset><url><loc>https://example.com/docs/v2/a</loc></url></urlset>'',
         Elem ''urlset'' None
           [Elem ''url'' None [Elem ''loc'' (Some ''https://example.com/docs/v2/a'') []]])]"

text \<open>The text of a sitemap candidate: what a fetch of it gives when that is usable and
  decodes.\<close>

definition candidate_text :: "pyenv \<Rightarrow> string \<Rightarrow> string option" where
  "candidate_text E s =
     (let r = fst (fetch E s empty_world) in
      if usable r then
        (case decode_bytes E (body (the r)) (headers (the r)) of
           Inl e \<Rightarrow> None
         | Inr t \<Rightarrow> Some t)
      else None)"

section \<open>The manifest probe\<close>

text \<open>\<^verbatim>\<open>u.rstrip("/").split("/")[-1]\<close>.\<close>

definition last_segment :: "string \<Rightarrow> string" where
  "last_segment u = last (split_char CHR ''/'' (rstrip_chars ''/'' u))"

text \<open>The loop of \<^verbatim>\<open>try_llms_files\<close> over the candidate URLs; \<^verbatim>\<open>found\<close> is a dictionary in
  insertion order.\<close>

fun llms_fetch_loop ::
  "pyenv \<Rightarrow> string list \<Rightarrow> string set \<Rightarrow> (string \<times> fetch_result) list \<Rightarrow> world \<Rightarrow>
   (string \<times> fetch_result) list \<times> world" where
  "llms_fetch_loop E [] seen found w = (found, w)"
| "llms_fetch_loop E (u # rest) seen found w =
     (if u \<in> seen then llms_fetch_loop E rest seen found w
      else
        let (r, w1) = fetch E u w in
        if \<not> usable r then llms_fetch_loop E rest (insert u seen) found w1
        else if \<not> looks_textlike (headers (the r)) (body (the r))
          then llms_fetch_loop E rest (insert u seen) found w1
        else if last_segment u \<notin> set (map fst found)
          then llms_fetch_loop E rest (insert u seen) (found @ [(last_segment u, the r)]) w1
        else llms_fetch_loop E rest (insert u seen) found w1)"

definition llms_variants :: "string list" where
  "llms_variants = [''llms-full.txt'', ''llms.txt'', ''llms-small.txt'']"

definition try_llms_files ::
  "pyenv \<Rightarrow> string \<Rightarrow> world \<Rightarrow> (py_exception + (string \<times> fetch_result) list) \<times> world" where
  "try_llms_files E base_url w =
     (case split_root_and_base E base_url of
        None \<Rightarrow> (Inl ValueError, w)
      | Some (root, base) \<Rightarrow>
          (case urlsplit E base of
             None \<Rightarrow> (Inl ValueError, w)
           | Some bp \<Rightarrow>
               let candidates =
                     map (\<lambda>v. base @ ''/'' @ v) llms_variants @
                     map (\<lambda>v. root @ ''/'' @ v) llms_variants @
                     (if strip_chars ''/'' (path bp) = []
                      then map (\<lambda>v. root @ ''/docs/'' @ v) llms_variants else []);
                   (found, w1) = llms_fetch_loop E candidates {} [] w
               in (Inr found, w1)))"

text \<open>\<^verbatim>\<open>re.findall\<close> for a pattern that never matches the empty string: \<^verbatim>\<open>m\<close> gives the
  match at the start of a string (what \<^verbatim>\<open>findall\<close> returns for it, and its length); the
  counter skips the characters of the last match.\<close>

fun findall_skip :: "(string \<Rightarrow> (string \<times> nat) option) \<Rightarrow> nat \<Rightarrow> string \<Rightarrow> string list" where
  "findall_skip m k [] = []"
| "findall_skip m k (c # cs) =
     (if k > 0 then findall_skip m (k - 1) cs
      else (case m (c # cs) of
              Some (g, len) \<Rightarrow> g # findall_skip m (len - 1) cs
            | None \<Rightarrow> findall_skip m 0 cs))"

text \<open>\<^verbatim>\<open>\[[^\]]+\]\(([^)]+)\)\<close> at the start of a string: the group and the length.\<close>

definition md_link_at :: "string \<Rightarrow> (string \<times> nat) option" where
  "md_link_at s =
     (case s of
        [] \<Rightarrow> None
      | c # r \<Rightarrow>
          if c \<noteq> CHR ''['' then None
          else
            let t = takeWhile (\<lambda>x. x \<noteq> CHR '']'') r;
                r2 = dropWhile (\<lambda>x. x \<noteq> CHR '']'') r
            in if t = [] \<or> take 2 r2 \<noteq> ''](''  then None
               else
                 let g = takeWhile (\<lambda>x. x \<noteq> CHR '')'') (drop 2 r2);
                     r3 = dropWhile (\<lambda>x. x \<noteq> CHR '')'') (drop 2 r2)
                 in if g = [] \<or> r3 = [] then None
                    else Some (g, length t + length g + 4))"

text \<open>\<^verbatim>\<open>https?://[^\s<>()\"\']+\<close> at the start of a string.\<close>

definition bare_url_char :: "char \<Rightarrow> bool" where
  "bare_url_char c = (\<not> isspace c \<and> c \<notin> set [CHR ''<'', CHR ''>'', CHR ''('', CHR '')'', CHR 0x22, CHR 0x27])"

definition bare_url_at :: "string \<Rightarrow> (string \<times> nat) option" where
  "bare_url_at s =
     (let p = (if startswith s ''https://'' then ''https://''
               else if startswith s ''http://'' then ''http://'' else [])
      in if p = [] then None
         else
           let run = takeWhile bare_url_char (drop (length p) s)
           in if run = [] then None else Some (p @ run, length p + length run))"

text \<open>The loop of \<^verbatim>\<open>extract_urls_from_llms_txt\<close> over the candidates. \<^verbatim>\<open>urljoin\<close> is not
  guarded, \<^verbatim>\<open>urlsplit\<close> is. The test on the path is the one with the segment boundary.\<close>

fun llms_url_loop ::
  "pyenv \<Rightarrow> string \<Rightarrow> string \<Rightarrow> string \<Rightarrow> string list \<Rightarrow> string set \<Rightarrow> py_exception + string set" where
  "llms_url_loop E base_url base_host base_prefix [] out_set = Inr out_set"
| "llms_url_loop E base_url base_host base_prefix (raw # rest) out_set =
     (let u0 = strip_chars ''.,;:'' (strip raw);
          joined = (if startswith u0 ''/'' then urljoin E base_url u0 else Some u0)
      in case joined of
           None \<Rightarrow> Inl ValueError
         | Some u \<Rightarrow>
             if \<not> startswith u0 ''/'' \<and> \<not> (startswith u ''http://'' \<or> startswith u ''https://'')
               then llms_url_loop E base_url base_host base_prefix rest out_set
             else
               (case urlsplit E u of
                  None \<Rightarrow> llms_url_loop E base_url base_host base_prefix rest out_set
                | Some parts \<Rightarrow>
                    if netloc parts \<noteq> base_host
                      then llms_url_loop E base_url base_host base_prefix rest out_set
                    else if \<not> (path parts = base_prefix \<or> startswith (path parts) (base_prefix @ ''/''))
                      then llms_url_loop E base_url base_host base_prefix rest out_set
                    else llms_url_loop E base_url base_host base_prefix rest
                           (insert (urlunsplit (parts\<lparr>fragment := []\<rparr>)) out_set)))"

definition extract_urls_from_llms_txt :: "pyenv \<Rightarrow> string \<Rightarrow> string \<Rightarrow> py_exception + string list" where
  "extract_urls_from_llms_txt E txt base_url =
     (case urlsplit E base_url of
        None \<Rightarrow> Inl ValueError
      | Some bs \<Rightarrow>
          let base_host = netloc bs;
              base_prefix = (if rstrip_chars ''/'' (path bs) = [] then ''/''
                             else rstrip_chars ''/'' (path bs));
              candidates = findall_skip md_link_at 0 txt @ findall_skip bare_url_at 0 txt
          in (case llms_url_loop E base_url base_host base_prefix candidates {} of
                Inl e \<Rightarrow> Inl e
              | Inr out_set \<Rightarrow> Inr (sorted_list_of_set out_set)))"

section \<open>The navigation scrape\<close>

text \<open>\<^verbatim>\<open>SidebarLinkParser\<close>. Its fields carry the prefix \<open>sb_\<close>; \<^verbatim>\<open>_seen\<close> always holds the
  elements of \<^verbatim>\<open>urls\<close> and is not kept apart.\<close>

record sidebar_parser =
  sb_root :: string
  sb_base :: string
  sb_base_host :: string
  sb_base_path :: string
  sb_stack :: "(string \<times> (string \<rightharpoonup> string)) list"
  sb_urls :: "string list"
  sb_ignore_depth :: nat

definition KEYWORDS :: "string list" where
  "KEYWORDS = [''sidebar'', ''menu'', ''nav'', ''toc'', ''docs'', ''navigation'']"

definition sidebar_init :: "pyenv \<Rightarrow> string \<Rightarrow> string \<Rightarrow> py_exception + sidebar_parser" where
  "sidebar_init E root base =
     (case urlsplit E root of
        None \<Rightarrow> Inl ValueError
      | Some pr \<Rightarrow>
          (case urlsplit E base of
             None \<Rightarrow> Inl ValueError
           | Some pb \<Rightarrow>
               Inr \<lparr>sb_root = root, sb_base = base, sb_base_host = netloc pr,
                    sb_base_path = rstrip_chars ''/'' (path pb), sb_stack = [], sb_urls = [],
                    sb_ignore_depth = 0\<rparr>))"

text \<open>\<^verbatim>\<open>{k.lower(): (v or "") for k, v in attrs}\<close>: a later attribute of the same name wins.\<close>

definition attrs_dict :: "(string \<times> string option) list \<Rightarrow> (string \<rightharpoonup> string)" where
  "attrs_dict attrs =
     map_of (rev (map (\<lambda>(k, v). (lower k, case v of None \<Rightarrow> [] | Some x \<Rightarrow> x)) attrs))"

definition in_candidate :: "sidebar_parser \<Rightarrow> bool" where
  "in_candidate p =
     list_ex (\<lambda>(tg, ad).
        tg \<in> set [''nav'', ''aside''] \<or>
        (let blob = lower (header_get ad ''class'') @ '' '' @ lower (header_get ad ''id'')
         in list_ex (\<lambda>k. contains blob k) KEYWORDS)) (sb_stack p)"

definition sb_handle_starttag ::
  "pyenv \<Rightarrow> string \<Rightarrow> (string \<times> string option) list \<Rightarrow> sidebar_parser \<Rightarrow>
   py_exception + sidebar_parser" where
  "sb_handle_starttag E tag0 attrs p0 =
     (let tg = lower tag0; ad = attrs_dict attrs in
      if tg \<in> set [''script'', ''style'', ''noscript'']
        then Inr (p0\<lparr>sb_ignore_depth := sb_ignore_depth p0 + 1\<rparr>)
      else if sb_ignore_depth p0 > 0 then Inr p0
      else
        let p = p0\<lparr>sb_stack := sb_stack p0 @ [(tg, ad)]\<rparr> in
        if tg = ''a'' \<and> in_candidate p then
          (let href = strip (header_get ad ''href'') in
           if href = [] \<or> startswith href ''#'' \<or> startswith (lower href) ''javascript:''
             then Inr p
           else
             (case (if startswith href ''/'' then urljoin E (sb_root p) href
                    else urljoin E (sb_base p @ ''/'') href) of
                None \<Rightarrow> Inl ValueError
              | Some joined \<Rightarrow>
                  let h = normalize_url joined in
                  if h = [] then Inr p
                  else
                    (case urlsplit E h of
                       None \<Rightarrow> Inl ValueError
                     | Some ph \<Rightarrow>
                         if netloc ph \<noteq> sb_base_host p then Inr p
                         else if sb_base_path p \<noteq> [] \<and> \<not> startswith (path ph) (sb_base_path p)
                           then Inr p
                         else if h \<notin> set (sb_urls p) then Inr (p\<lparr>sb_urls := sb_urls p @ [h]\<rparr>)
                         else Inr p)))
        else Inr p)"

definition sb_handle_endtag :: "string \<Rightarrow> sidebar_parser \<Rightarrow> sidebar_parser" where
  "sb_handle_endtag tag0 p =
     (let tg = lower tag0 in
      if tg \<in> set [''script'', ''style'', ''noscript'']
        then (if sb_ignore_depth p > 0 then p\<lparr>sb_ignore_depth := sb_ignore_depth p - 1\<rparr> else p)
      else if sb_ignore_depth p > 0 then p
      else if sb_stack p \<noteq> [] then p\<lparr>sb_stack := butlast (sb_stack p)\<rparr>
      else p)"

text \<open>\<^verbatim>\<open>parser.feed(html)\<close>: the handlers in the order of the events; an exception of a
  handler ends the feed.\<close>

fun sb_feed :: "pyenv \<Rightarrow> html_event list \<Rightarrow> sidebar_parser \<Rightarrow> py_exception + sidebar_parser" where
  "sb_feed E [] p = Inr p"
| "sb_feed E (StartTag tg attrs # rest) p =
     (case sb_handle_starttag E tg attrs p of Inl e \<Rightarrow> Inl e | Inr p' \<Rightarrow> sb_feed E rest p')"
| "sb_feed E (EndTag tg # rest) p = sb_feed E rest (sb_handle_endtag tg p)"
| "sb_feed E (Data d # rest) p = sb_feed E rest p"

section \<open>Discovery\<close>

text \<open>\<^verbatim>\<open>discover_pages\<close>: the method, the page list and the manifest files, or the exception
  that leaves it. Its three parts are the pages of \<^verbatim>\<open>llms.txt\<close> when that file was found, the
  sitemap probe, and the navigation scrape of the base page.\<close>

definition llms_txt_urls ::
  "pyenv \<Rightarrow> string \<Rightarrow> (string \<times> fetch_result) list \<Rightarrow> py_exception + string list" where
  "llms_txt_urls E base_url llms_files =
     (case map_of llms_files ''llms.txt'' of
        None \<Rightarrow> Inr []
      | Some fr \<Rightarrow>
          (case decode_bytes E (body fr) (headers fr) of
             Inl e \<Rightarrow> Inl e
           | Inr txt \<Rightarrow> extract_urls_from_llms_txt E txt base_url))"

definition sidebar_urls :: "pyenv \<Rightarrow> string \<Rightarrow> world \<Rightarrow> (py_exception + string list) \<times> world" where
  "sidebar_urls E base_url w =
     (case split_root_and_base E base_url of
        None \<Rightarrow> (Inl ValueError, w)
      | Some (root, base) \<Rightarrow>
          let (r, w1) = fetch E base_url w in
          if \<not> usable r then (Inr [], w1)
          else
            (case decode_bytes E (body (the r)) (headers (the r)) of
               Inl e \<Rightarrow> (Inl e, w1)
             | Inr html \<Rightarrow>
                 (case sidebar_init E root base of
                    Inl e \<Rightarrow> (Inl e, w1)
                  | Inr parser \<Rightarrow>
                      (case sb_feed E (html_feed E html) parser of
                         Inl e \<Rightarrow> (Inl e, w1)
                       | Inr p \<Rightarrow> (Inr (sb_urls p), w1)))))"

definition discover_pages ::
  "pyenv \<Rightarrow> string \<Rightarrow> world \<Rightarrow>
   (py_exception + string \<times> string list \<times> (string \<times> fetch_result) list) \<times> world" where
  "discover_pages E base_url w =
     (case try_llms_files E base_url w of
        (Inl e, w1) \<Rightarrow> (Inl e, w1)
      | (Inr llms_files, w1) \<Rightarrow>
          (case llms_txt_urls E base_url llms_files of
             Inl e \<Rightarrow> (Inl e, w1)
           | Inr urls1 \<Rightarrow>
               if urls1 \<noteq> [] then (Inr (''llms.txt'', urls1, llms_files), w1)
               else
                 (case fetch_sitemap_urls E base_url w1 of
                    (Inl e, w2) \<Rightarrow> (Inl e, w2)
                  | (Inr urls2, w2) \<Rightarrow>
                      if urls2 \<noteq> [] then (Inr (''sitemap.xml'', urls2, llms_files), w2)
                      else
                        (case sidebar_urls E base_url w2 of
                           (Inl e, w3) \<Rightarrow> (Inl e, w3)
                         | (Inr urls3, w3) \<Rightarrow>
                             if urls3 \<noteq> [] then (Inr (''sidebar/nav'', urls3, llms_files), w3)
                             else (Inr (''ingen'', [], llms_files), w3)))))"

section \<open>Downloading and writing files\<close>

text \<open>
  The file system never fails in this model. \<^verbatim>\<open>ensure_dir\<close> creates the directory and its
  parents; \<^verbatim>\<open>save_text\<close> and \<^verbatim>\<open>save_bytes\<close> store the content under the path (the UTF-8
  encoding of a text is not modelled: the text itself is stored).
\<close>

fun prefixes_of :: "fpath \<Rightarrow> fpath list" where
  "prefixes_of [] = [[]]"
| "prefixes_of (x # xs) = [] # map ((#) x) (prefixes_of xs)"

definition ensure_dir :: "fpath \<Rightarrow> world \<Rightarrow> world" where
  "ensure_dir p w = w\<lparr>dirs := dirs w \<union> set (prefixes_of p)\<rparr>"

definition save_bytes :: "fpath \<Rightarrow> bytes \<Rightarrow> world \<Rightarrow> world" where
  "save_bytes p d w = w\<lparr>files := (files w)(p \<mapsto> d)\<rparr>"

definition save_text :: "fpath \<Rightarrow> string \<Rightarrow> world \<Rightarrow> world" where
  "save_text p t w = w\<lparr>files := (files w)(p \<mapsto> t)\<rparr>"

definition sleep_ms :: "nat \<Rightarrow> world \<Rightarrow> world" where
  "sleep_ms d w = w\<lparr>sleeps := sleeps w @ [d]\<rparr>"

text \<open>The extension of the raw file, from the lower-cased content type.\<close>

definition raw_ext :: "string \<Rightarrow> string" where
  "raw_ext ctype =
     (if contains ctype ''text/markdown'' then ''.md''
      else if contains ctype ''text/plain'' then ''.txt''
      else if contains ctype ''application/json'' then ''.json''
      else ''.html'')"

text \<open>One page of \<^verbatim>\<open>download_pages\<close>, for a response that is usable: the raw file, the
  converted file, the delay. The result is the path of the converted file.\<close>

definition download_one ::
  "pyenv \<Rightarrow> fpath \<Rightarrow> nat \<Rightarrow> string \<Rightarrow> fetch_result \<Rightarrow> world \<Rightarrow> (py_exception + fpath) \<times> world" where
  "download_one E out_dir delay u r w =
     (case url_to_page_slug E u of
        None \<Rightarrow> (Inl ValueError, w)
      | Some slug \<Rightarrow>
          let ctype = lower (header_get (headers r) ''Content-Type'');
              ext = raw_ext ctype;
              w1 = save_bytes (out_dir @ [''raw'', slug @ ext]) (body r) w
          in (case decode_bytes E (body r) (headers r) of
                Inl e \<Rightarrow> (Inl e, w1)
              | Inr txt \<Rightarrow>
                  let md_body = (if contains ctype ''text/html'' \<or> ext = ''.html''
                                 then html_to_markdownish E txt
                                 else if endswith txt ''\<newline>'' then txt else txt @ ''\<newline>'');
                      md = ''# '' @ u @ ''\<newline>'' @ ''> K'' @ [CHR 0xE4] @ ''lla: '' @ u @ ''\<newline>\<newline>'' @ md_body;
                      md_path = out_dir @ [''md'', slug @ ''.md''];
                      w2 = sleep_ms delay (save_text md_path md w1)
                  in (Inr md_path, w2)))"

fun download_loop ::
  "pyenv \<Rightarrow> fpath \<Rightarrow> nat \<Rightarrow> string list \<Rightarrow> fpath list \<Rightarrow> world \<Rightarrow>
   (py_exception + fpath list) \<times> world" where
  "download_loop E out_dir delay [] md_paths w = (Inr md_paths, w)"
| "download_loop E out_dir delay (u # rest) md_paths w =
     (let (r, w1) = fetch E u w in
      if \<not> usable r then download_loop E out_dir delay rest md_paths w1
      else
        (case download_one E out_dir delay u (the r) w1 of
           (Inl e, w2) \<Rightarrow> (Inl e, w2)
         | (Inr md_path, w2) \<Rightarrow> download_loop E out_dir delay rest (md_paths @ [md_path]) w2))"

definition download_pages ::
  "pyenv \<Rightarrow> string list \<Rightarrow> fpath \<Rightarrow> nat \<Rightarrow> nat \<Rightarrow> world \<Rightarrow> (py_exception + fpath list) \<times> world" where
  "download_pages E page_urls out_dir delay max_pages w =
     download_loop E out_dir delay (take max_pages page_urls) []
       (ensure_dir (out_dir @ [''md'']) (ensure_dir (out_dir @ [''raw'']) w))"

text \<open>\<^verbatim>\<open>build_combined\<close>: a file that cannot be read is passed over.\<close>

fun combined_parts :: "world \<Rightarrow> fpath list \<Rightarrow> string" where
  "combined_parts w [] = []"
| "combined_parts w (p # ps) =
     (case files w p of
        Some t \<Rightarrow> t @ ''\<newline>\<newline>---\<newline>\<newline>'' @ combined_parts w ps
      | None \<Rightarrow> combined_parts w ps)"

definition build_combined :: "fpath list \<Rightarrow> fpath \<Rightarrow> string \<Rightarrow> world \<Rightarrow> world" where
  "build_combined md_paths out_path title w =
     save_text out_path (''# '' @ title @ ''\<newline>\<newline>'' @ combined_parts w md_paths) w"

definition write_llms_files :: "(string \<times> fetch_result) list \<Rightarrow> fpath \<Rightarrow> world \<Rightarrow> world" where
  "write_llms_files llms_files out_dir w =
     (if llms_files = [] then w
      else fold (\<lambda>(name, fr). save_bytes (out_dir @ [''llms'', name]) (body fr)) llms_files
             (ensure_dir (out_dir @ [''llms'']) w))"

section \<open>Running a target\<close>

text \<open>\<^verbatim>\<open>json.dumps(meta, ensure_ascii=False, indent=2)\<close> for the run manifest. A JSON string
  escapes the quote, the backslash and the control characters.\<close>

definition hex_digit :: "nat \<Rightarrow> char" where
  "hex_digit k = (if k < 10 then char_of (48 + k) else char_of (87 + k))"

definition json_escape_char :: "char \<Rightarrow> string" where
  "json_escape_char c =
     (if c = CHR 0x22 then [CHR 0x5C, CHR 0x22]
      else if c = CHR 0x5C then [CHR 0x5C, CHR 0x5C]
      else if c = CHR 0x0A then [CHR 0x5C, CHR ''n'']
      else if c = CHR 0x0D then [CHR 0x5C, CHR ''r'']
      else if c = CHR 0x09 then [CHR 0x5C, CHR ''t'']
      else if c = CHR 0x08 then [CHR 0x5C, CHR ''b'']
      else if c = CHR 0x0C then [CHR 0x5C, CHR ''f'']
      else if (of_char c :: nat) < 32
        then [CHR 0x5C, CHR ''u'', CHR ''0'', CHR ''0'',
              hex_digit ((of_char c :: nat) div 16), hex_digit ((of_char c :: nat) mod 16)]
      else [c])"

definition json_string :: "string \<Rightarrow> string" where
  "json_string s = [CHR 0x22] @ concat (map json_escape_char s) @ [CHR 0x22]"

definition meta_json :: "string \<Rightarrow> string \<Rightarrow> nat \<Rightarrow> nat \<Rightarrow> int \<Rightarrow> string" where
  "meta_json base_url method downloaded chosen ts =
     ''{\<newline>  '' @ json_string ''base_url'' @ '': '' @ json_string base_url @
     '',\<newline>  '' @ json_string ''discovery_method'' @ '': '' @ json_string method @
     '',\<newline>  '' @ json_string ''downloaded_pages'' @ '': '' @ str_nat downloaded @
     '',\<newline>  '' @ json_string ''chosen_urls_count'' @ '': '' @ str_nat chosen @
     '',\<newline>  '' @ json_string ''timestamp_unix'' @ '': '' @ str_int ts @ ''\<newline>}''"

text \<open>The clock is read after the requests made so far.\<close>

definition unix_time :: "pyenv \<Rightarrow> world \<Rightarrow> int" where
  "unix_time E w = time_now E (length (requests w))"

text \<open>The directory of a target, \<^verbatim>\<open>Path.cwd() / f"docgrab__{slug}"\<close>, relative to the working
  directory.\<close>

definition site_dir_of :: "string \<Rightarrow> fpath" where
  "site_dir_of slug = [''docgrab__'' @ slug]"

text \<open>\<^verbatim>\<open>download_pages\<close> followed by \<^verbatim>\<open>build_combined\<close> into \<^verbatim>\<open>combined.md\<close>, as all branches
  that download do. The result is the number of converted pages.\<close>

definition download_and_combine ::
  "pyenv \<Rightarrow> string \<Rightarrow> fpath \<Rightarrow> string list \<Rightarrow> nat \<Rightarrow> world \<Rightarrow> (py_exception + nat) \<times> world" where
  "download_and_combine E base_url site_dir page_urls max_pages w =
     (case download_pages E page_urls site_dir DELAY_MS max_pages w of
        (Inl e, w1) \<Rightarrow> (Inl e, w1)
      | (Inr md_paths, w1) \<Rightarrow>
          (Inr (length md_paths), build_combined md_paths (site_dir @ [''combined.md'']) base_url w1))"

text \<open>\<^verbatim>\<open>run_for_url_auto\<close>. No branch of it writes \<^verbatim>\<open>meta.json\<close>.\<close>

definition run_for_url_auto ::
  "pyenv \<Rightarrow> string \<Rightarrow> string \<Rightarrow> world \<Rightarrow> (py_exception + unit) \<times> world" where
  "run_for_url_auto E base_url0 mode w =
     (let base_url = normalize_url base_url0 in
      if base_url = [] then (Inr (), w)
      else
        (case slug_from_url E base_url of
           None \<Rightarrow> (Inl ValueError, w)
         | Some slug \<Rightarrow>
             let site_dir = site_dir_of slug;
                 w1 = ensure_dir site_dir w
             in (case discover_pages E base_url w1 of
                   (Inl e, w2) \<Rightarrow> (Inl e, w2)
                 | (Inr (method, pages, llms_files), w2) \<Rightarrow>
                     let w3 = write_llms_files llms_files site_dir w2 in
                     if mode = ''full'' then
                       (case map_of llms_files ''llms-full.txt'' of
                          Some fr \<Rightarrow>
                            (Inr (), save_bytes (site_dir @ [''combined__llms-full.txt'']) (body fr) w3)
                        | None \<Rightarrow>
                            if pages \<noteq> [] then
                              (case download_and_combine E base_url site_dir pages MAX_PAGES_DEFAULT w3 of
                                 (Inl e, w4) \<Rightarrow> (Inl e, w4)
                               | (Inr n, w4) \<Rightarrow> (Inr (), w4))
                            else
                              (case download_pages E [base_url] site_dir DELAY_MS 1 w3 of
                                 (Inl e, w4) \<Rightarrow> (Inl e, w4)
                               | (Inr md_paths, w4) \<Rightarrow> (Inr (), w4)))
                     else if mode = ''all'' then
                       (case download_and_combine E base_url site_dir
                               (if pages \<noteq> [] then pages else [base_url]) MAX_PAGES_DEFAULT w3 of
                          (Inl e, w4) \<Rightarrow> (Inl e, w4)
                        | (Inr n, w4) \<Rightarrow> (Inr (), w4))
                     else if mode = ''start'' then
                       (case download_pages E [base_url] site_dir DELAY_MS 1 w3 of
                          (Inl e, w4) \<Rightarrow> (Inl e, w4)
                        | (Inr md_paths, w4) \<Rightarrow> (Inr (), w4))
                     else (Inr (), w3))))"

text \<open>
  \<^verbatim>\<open>run_for_url\<close>, the interactive sibling. What the user answers in \<^verbatim>\<open>choose_action\<close> is the
  parameter \<open>answer\<close>: from the method and the pages shown to the action and the chosen
  URLs. The branches \<^verbatim>\<open>start\<close>, \<^verbatim>\<open>all_pages\<close> and \<^verbatim>\<open>select_pages\<close> end by writing
  \<^verbatim>\<open>meta.json\<close>.
\<close>

definition run_for_url ::
  "pyenv \<Rightarrow> (string \<Rightarrow> string list \<Rightarrow> string \<times> string list) \<Rightarrow> string \<Rightarrow> world \<Rightarrow>
   (py_exception + unit) \<times> world" where
  "run_for_url E answer base_url0 w =
     (let base_url = normalize_url base_url0 in
      if base_url = [] then (Inr (), w)
      else
        (case slug_from_url E base_url of
           None \<Rightarrow> (Inl ValueError, w)
         | Some slug \<Rightarrow>
             let site_dir = site_dir_of slug;
                 w1 = ensure_dir site_dir w
             in (case discover_pages E base_url w1 of
                   (Inl e, w2) \<Rightarrow> (Inl e, w2)
                 | (Inr (method, pages, llms_files), w2) \<Rightarrow>
                     let w3 = write_llms_files llms_files site_dir w2;
                         (action, chosen_urls) = answer method pages
                     in if action = ''skip'' then (Inr (), w3)
                        else if action = ''full_single'' \<and> map_of llms_files ''llms-full.txt'' \<noteq> None then
                          (Inr (), save_bytes (site_dir @ [''combined__llms-full.txt''])
                                     (body (the (map_of llms_files ''llms-full.txt''))) w3)
                        else
                          (case download_and_combine E base_url site_dir chosen_urls MAX_PAGES_DEFAULT w3 of
                             (Inl e, w4) \<Rightarrow> (Inl e, w4)
                           | (Inr n, w4) \<Rightarrow>
                               if action = ''full_single'' then (Inr (), w4)
                               else
                                 (Inr (), save_text (site_dir @ [''meta.json''])
                                            (meta_json base_url method n (length chosen_urls)
                                               (unix_time E w4)) w4)))))"

text \<open>The loops of \<^verbatim>\<open>main\<close> over the targets given on the command line: an exception of one
  target ends the loop.\<close>

fun run_targets_auto ::
  "pyenv \<Rightarrow> string \<Rightarrow> string list \<Rightarrow> world \<Rightarrow> (py_exception + unit) \<times> world" where
  "run_targets_auto E mode [] w = (Inr (), w)"
| "run_targets_auto E mode (u # rest) w =
     (case run_for_url_auto E u mode w of
        (Inl e, w1) \<Rightarrow> (Inl e, w1)
      | (Inr x, w1) \<Rightarrow> run_targets_auto E mode rest w1)"

fun run_targets ::
  "pyenv \<Rightarrow> (string \<Rightarrow> string list \<Rightarrow> string \<times> string list) \<Rightarrow> string list \<Rightarrow> world \<Rightarrow>
   (py_exception + unit) \<times> world" where
  "run_targets E answer [] w = (Inr (), w)"
| "run_targets E answer (u # rest) w =
     (case run_for_url E answer u w of
        (Inl e, w1) \<Rightarrow> (Inl e, w1)
      | (Inr x, w1) \<Rightarrow> run_targets E answer rest w1)"

text \<open>\<^verbatim>\<open>main\<close> when URLs are given on the command line (\<open>argv\<close> without the program name):
  the flags, the normalised targets, and the loop. Without a URL the program prompts,
  which is outside this model: the world is returned as it is.\<close>

definition main_with_args ::
  "pyenv \<Rightarrow> (string \<Rightarrow> string list \<Rightarrow> string \<times> string list) \<Rightarrow> string list \<Rightarrow> world \<Rightarrow>
   (py_exception + unit) \<times> world" where
  "main_with_args E answer argv w =
     (let auto_mode = (''--auto'' \<in> set argv);
          mode = (if ''--all'' \<in> set argv then ''all''
                  else if ''--start'' \<in> set argv then ''start'' else ''full'');
          args = map normalize_url
                   (filter (\<lambda>a. normalize_url a \<noteq> [] \<and> \<not> startswith a ''--'') argv)
      in if args = [] then (Inr (), w)
         else if auto_mode then run_targets_auto E mode args w
         else run_targets E answer args w)"

text \<open>The path of the run manifest in the directory \<open>d\<close>.\<close>

definition meta_path :: "string \<Rightarrow> fpath" where
  "meta_path d = [d, ''meta.json'']"

text \<open>A network on which every request raises.\<close>

definition dead_network :: "pyenv \<Rightarrow> bool" where
  "dead_network E = (\<forall>k u t. attempt_fails (urlopen E k u t))"


section \<open>Properties of the string helpers\<close>

lemma rstrip_with_id: "s = [] \<or> \<not> P (last s) \<Longrightarrow> rstrip_with P s = s"
  by (cases s rule: rev_cases) (auto simp: rstrip_with_def)

lemma lstrip_with_id: "s = [] \<or> \<not> P (hd s) \<Longrightarrow> lstrip_with P s = s"
  by (cases s) (auto simp: lstrip_with_def)

lemma strip_with_id: "s = [] \<or> (\<not> P (hd s) \<and> \<not> P (last s)) \<Longrightarrow> strip_with P s = s"
  by (auto simp: strip_with_def rstrip_with_id lstrip_with_id)

lemma rstrip_with_last: "rstrip_with P s \<noteq> [] \<Longrightarrow> \<not> P (last (rstrip_with P s))"
  unfolding rstrip_with_def
  by (metis (no_types, lifting) hd_dropWhile last_rev rev_is_Nil_conv)

lemma rstrip_with_all: "\<forall>c\<in>set s. P c \<Longrightarrow> rstrip_with P s = []"
  by (simp add: rstrip_with_def)

lemma rstrip_with_append:
  "rstrip_with P (p @ s) = (if \<forall>c\<in>set s. P c then rstrip_with P p else p @ rstrip_with P s)"
  by (simp add: rstrip_with_def dropWhile_append)

lemma lstrip_with_append_keep:
  "p \<noteq> [] \<Longrightarrow> \<not> P (hd p) \<Longrightarrow> lstrip_with P (p @ s) = p @ s"
  by (cases p) (simp_all add: lstrip_with_def)

lemma rstrip_with_append_keep:
  "p \<noteq> [] \<Longrightarrow> \<not> P (last p) \<Longrightarrow> rstrip_with P (p @ s) = p @ rstrip_with P s"
  by (simp add: rstrip_with_append rstrip_with_id rstrip_with_all)

lemma strip_with_append_keep:
  "p \<noteq> [] \<Longrightarrow> \<not> P (hd p) \<Longrightarrow> \<not> P (last p) \<Longrightarrow> strip_with P (p @ s) = p @ rstrip_with P s"
  by (simp add: strip_with_def lstrip_with_append_keep rstrip_with_append_keep)

lemma dropWhile_length_eq: "length (dropWhile P xs) = length xs \<Longrightarrow> dropWhile P xs = xs"
proof (cases xs)
  case Nil
  then show ?thesis by simp
next
  case (Cons a ys)
  assume len: "length (dropWhile P xs) = length xs"
  have "\<not> P a"
  proof
    assume "P a"
    then have "length (dropWhile P xs) = length (dropWhile P ys)" using Cons by simp
    also have "\<dots> \<le> length ys" by (rule length_dropWhile_le)
    finally show False using len Cons by simp
  qed
  then show ?thesis using Cons by simp
qed

lemma length_rstrip_with: "length (rstrip_with P s) \<le> length s"
  unfolding rstrip_with_def by (metis length_dropWhile_le length_rev)

lemma length_lstrip_with: "length (lstrip_with P s) \<le> length s"
  by (simp add: lstrip_with_def length_dropWhile_le)

lemma length_strip_with: "length (strip_with P s) \<le> length s"
  unfolding strip_with_def
  using length_rstrip_with[of P "lstrip_with P s"] length_lstrip_with[of P s] by linarith

lemma rstrip_with_length_eq: "length (rstrip_with P s) = length s \<Longrightarrow> rstrip_with P s = s"
  unfolding rstrip_with_def
  by (metis dropWhile_length_eq length_rev rev_rev_ident)

lemma lstrip_with_length_eq: "length (lstrip_with P s) = length s \<Longrightarrow> lstrip_with P s = s"
  unfolding lstrip_with_def by (rule dropWhile_length_eq)

lemma strip_with_length_eq: "length (strip_with P s) = length s \<Longrightarrow> strip_with P s = s"
  unfolding strip_with_def
  by (metis length_lstrip_with length_rstrip_with lstrip_with_length_eq rstrip_with_length_eq le_antisym)

lemma ascii_lower_h: "ascii_lower c = CHR ''h'' \<Longrightarrow> \<not> isspace c \<and> c \<notin> set quote_chars"
  by (auto simp: isspace_def quote_chars_def ascii_lower_def)

lemma http_prefix_hd:
  "has_http_prefix v \<Longrightarrow> v \<noteq> [] \<and> \<not> isspace (hd v) \<and> hd v \<notin> set quote_chars"
  unfolding has_http_prefix_def lower_def
  by (cases v) (auto dest: ascii_lower_h)

lemma normalize_url_last:
  "normalize_url u \<noteq> [] \<Longrightarrow> last (normalize_url u) \<noteq> CHR ''/''"
  unfolding normalize_url_def Let_def rstrip_chars_def
  using rstrip_with_last[of "\<lambda>c. c \<in> set ''/''"]
  by (auto split: if_splits)

lemma strip_with_fix_last: "strip_with P s = s \<Longrightarrow> s \<noteq> [] \<Longrightarrow> \<not> P (last s)"
  unfolding strip_with_def using rstrip_with_last[of P "lstrip_with P s"] by simp

lemma rstrip_with_fix_last: "rstrip_with P s = s \<Longrightarrow> s \<noteq> [] \<Longrightarrow> \<not> P (last s)"
  using rstrip_with_last[of P s] by simp

lemma normalize_url_fixpoint_if:
  assumes st: "stable_form v" and sl: "v = [] \<or> last v \<noteq> CHR ''/''"
  shows "normalize_url v = v"
proof (cases "v = []")
  case True
  then show ?thesis
    by (simp add: normalize_url_def strip_def strip_with_def lstrip_with_def rstrip_with_def
        strip_chars_def rstrip_chars_def)
next
  case False
  with st have pre: "has_http_prefix v" and ns: "\<not> isspace (last v)"
    and nq: "last v \<notin> set quote_chars"
    by (auto simp: stable_form_def)
  from http_prefix_hd[OF pre] have hs: "\<not> isspace (hd v)" and hq: "hd v \<notin> set quote_chars"
    by simp_all
  have s1: "strip v = v" unfolding strip_def using hs ns by (simp add: strip_with_id)
  have s2: "strip_chars quote_chars v = v"
    unfolding strip_chars_def using hq nq by (simp add: strip_with_id)
  have s3: "rstrip_chars quote_chars v = v"
    unfolding rstrip_chars_def using nq by (simp add: rstrip_with_id)
  have s4: "rstrip_chars ''/'' v = v"
    unfolding rstrip_chars_def using sl False by (simp add: rstrip_with_id)
  show ?thesis
    unfolding normalize_url_def Let_def using False pre by (simp add: s1 s2 s3 s4)
qed

lemma strips_keep_https:
  "rstrip_chars quote_chars (strip_chars quote_chars (strip (strip (''https://'' @ t)))) =
   ''https://'' @ rstrip_with (\<lambda>c. c \<in> set quote_chars)
     (rstrip_with (\<lambda>c. c \<in> set quote_chars) (rstrip_with isspace (rstrip_with isspace t)))"
proof -
  have a: "strip_with isspace (''https://'' @ s) = ''https://'' @ rstrip_with isspace s" for s
    by (rule strip_with_append_keep) (simp_all add: isspace_def)
  have b: "strip_with (\<lambda>c. c \<in> set quote_chars) (''https://'' @ s) =
      ''https://'' @ rstrip_with (\<lambda>c. c \<in> set quote_chars) s" for s
    by (rule strip_with_append_keep) (simp_all add: quote_chars_def)
  have c: "rstrip_with (\<lambda>c. c \<in> set quote_chars) (''https://'' @ s) =
      ''https://'' @ rstrip_with (\<lambda>c. c \<in> set quote_chars) s" for s
    by (rule rstrip_with_append_keep) (simp_all add: quote_chars_def)
  show ?thesis
    unfolding strip_def strip_chars_def rstrip_chars_def a b c ..
qed

lemma normalize_url_fixpoint_only_if:
  assumes fx: "normalize_url v = v"
  shows "stable_form v"
proof (cases "v = []")
  case True
  then show ?thesis by (simp add: stable_form_def)
next
  case False
  define r2 where "r2 = rstrip_chars quote_chars (strip_chars quote_chars (strip (strip v)))"
  have nv: "normalize_url v =
      (if r2 = [] then []
       else rstrip_chars ''/'' (if \<not> has_http_prefix r2 then ''https://'' @ r2 else r2))"
    unfolding normalize_url_def Let_def r2_def by simp
  from fx False nv have r2ne: "r2 \<noteq> []" by auto
  have l1: "length (strip v) \<le> length v" unfolding strip_def by (rule length_strip_with)
  have l2: "length (strip (strip v)) \<le> length (strip v)"
    unfolding strip_def by (rule length_strip_with)
  have l3: "length (strip_chars quote_chars (strip (strip v))) \<le> length (strip (strip v))"
    unfolding strip_chars_def by (rule length_strip_with)
  have l4: "length r2 \<le> length (strip_chars quote_chars (strip (strip v)))"
    unfolding r2_def rstrip_chars_def by (rule length_rstrip_with)
  show ?thesis
  proof (cases "has_http_prefix r2")
    case True
    with fx nv r2ne have "v = rstrip_chars ''/'' r2" by simp
    then have "length v \<le> length r2"
      unfolding rstrip_chars_def using length_rstrip_with[of _ r2] by simp
    with l1 l2 l3 l4 have e1: "length (strip v) = length v"
      and e2: "length (strip (strip v)) = length (strip v)"
      and e3: "length (strip_chars quote_chars (strip (strip v))) = length (strip (strip v))"
      and e4: "length r2 = length (strip_chars quote_chars (strip (strip v)))"
      by linarith+
    have s1: "strip v = v" using e1 unfolding strip_def by (rule strip_with_length_eq)
    have s3: "strip_chars quote_chars v = v"
      using e3 unfolding s1 strip_chars_def by (rule strip_with_length_eq)
    have "r2 = strip_chars quote_chars (strip (strip v))"
      using e4 unfolding r2_def rstrip_chars_def by (rule rstrip_with_length_eq)
    then have r2v: "r2 = v" by (simp add: s1 s3)
    then have s4: "rstrip_chars quote_chars v = v" unfolding r2_def by (simp add: s1 s3)
    have "\<not> isspace (last v)"
      using s1 False unfolding strip_def by (rule strip_with_fix_last)
    moreover have "last v \<notin> set quote_chars"
      using rstrip_with_fix_last[OF s4[unfolded rstrip_chars_def] False] .
    ultimately show ?thesis using True r2v by (simp add: stable_form_def)
  next
    case nopre: False
    with fx nv r2ne have veq: "v = rstrip_chars ''/'' (''https://'' @ r2)" by simp
    show ?thesis
    proof (cases "\<forall>c\<in>set r2. c \<in> set ''/''")
      case True
      then have "v = ''https:''"
        using veq unfolding rstrip_chars_def rstrip_with_append
        by (simp add: rstrip_with_def)
      then have "r2 = ''https:''"
        unfolding r2_def
        by (simp add: strip_def strip_with_def lstrip_with_def rstrip_with_def
            strip_chars_def rstrip_chars_def isspace_def quote_chars_def)
      with True show ?thesis by simp
    next
      case False
      then have v2: "v = ''https://'' @ rstrip_chars ''/'' r2"
        using veq unfolding rstrip_chars_def rstrip_with_append by auto
      have "r2 = rstrip_chars quote_chars (strip_chars quote_chars (strip (strip v)))"
        by (rule r2_def)
      also have "\<dots> = ''https://'' @ rstrip_with (\<lambda>c. c \<in> set quote_chars)
          (rstrip_with (\<lambda>c. c \<in> set quote_chars) (rstrip_with isspace (rstrip_with isspace
             (rstrip_chars ''/'' r2))))"
        by (subst v2) (rule strips_keep_https)
      finally obtain z where "r2 = ''https://'' @ z" by blast
      then have "has_http_prefix r2"
        by (simp add: has_http_prefix_def lower_def ascii_lower_def)
      with nopre show ?thesis by simp
    qed
  qed
qed


section \<open>C5: normalisation is not idempotent everywhere\<close>

text \<open>
  C5 (as stated): \<^verbatim>\<open>normalize(normalize(u)) == normalize(u)\<close> for every string \<^verbatim>\<open>u\<close>.
  It fails: the trailing slash is removed after the whitespace and the quotes, so
  \<^verbatim>\<open>"example.com/a /"\<close> normalises to \<^verbatim>\<open>"https://example.com/a "\<close>, whose trailing space
  the second pass strips.
\<close>

theorem normalize_url_not_idempotent:
  "normalize_url (normalize_url ''example.com/a /'') \<noteq> normalize_url ''example.com/a /''"
  by code_simp

text \<open>
  C5 (amended): a second normalisation changes nothing exactly when the first result is
  stable: it is empty, or it still begins with \<^verbatim>\<open>http://\<close> or \<^verbatim>\<open>https://\<close> (any letter
  case) and does not end in a whitespace or quote character.
\<close>

theorem normalize_url_idempotent_iff:
  "normalize_url (normalize_url u) = normalize_url u \<longleftrightarrow> stable_form (normalize_url u)"
  using normalize_url_fixpoint_if[of "normalize_url u"]
    normalize_url_fixpoint_only_if[of "normalize_url u"] normalize_url_last[of u]
  by blast

theorem normalize_url_idempotent_iff_witness:
  "stable_form (normalize_url ''  Example.com/docs/  '') \<and>
   normalize_url (normalize_url ''  Example.com/docs/  '') = normalize_url ''  Example.com/docs/  ''"
proof -
  have h: "stable_form (normalize_url ''  Example.com/docs/  '')" by code_simp
  with normalize_url_idempotent_iff[of "''  Example.com/docs/  ''"] show ?thesis by blast
qed

section \<open>C9: index and range selection\<close>

lemma add_if_in_range_inv:
  "finite acc \<and> acc \<subseteq> {1..n} \<Longrightarrow>
   finite (add_if_in_range n x acc) \<and> add_if_in_range n x acc \<subseteq> {1..n}"
  by (simp add: add_if_in_range_def)

lemma fold_add_if_in_range_inv:
  "finite acc \<and> acc \<subseteq> {1..n} \<Longrightarrow>
   finite (fold (add_if_in_range n) xs acc) \<and> fold (add_if_in_range n) xs acc \<subseteq> {1..n}"
proof (induction xs arbitrary: acc)
  case Nil
  then show ?case by simp
next
  case (Cons x xs)
  from Cons.IH[OF add_if_in_range_inv[OF Cons.prems]] show ?case by simp
qed

lemma selection_part_inv:
  "finite acc \<and> acc \<subseteq> {1..n} \<Longrightarrow>
   finite (selection_part n p acc) \<and> selection_part n p acc \<subseteq> {1..n}"
  unfolding selection_part_def Let_def
  using fold_add_if_in_range_inv[of acc n] add_if_in_range_inv[of acc n]
  by (simp split: option.splits prod.splits)

lemma fold_selection_part_inv:
  "finite acc \<and> acc \<subseteq> {1..n} \<Longrightarrow>
   finite (fold (selection_part n) ps acc) \<and> fold (selection_part n) ps acc \<subseteq> {1..n}"
proof (induction ps arbitrary: acc)
  case Nil
  then show ?case by simp
next
  case (Cons p ps)
  from Cons.IH[OF selection_part_inv[OF Cons.prems]] show ?case by simp
qed

lemma parse_selection_sorted_distinct_range:
  "sorted (parse_selection sel n) \<and> distinct (parse_selection sel n) \<and>
   set (parse_selection sel n) \<subseteq> {1..n}"
proof -
  have "finite (fold (selection_part n) ps {}) \<and> fold (selection_part n) ps {} \<subseteq> {1..n}" for ps
    by (rule fold_selection_part_inv) simp
  then show ?thesis
    unfolding parse_selection_def Let_def by simp
qed

lemma fold_add_if_in_range_set:
  "fold (add_if_in_range n) xs acc = acc \<union> {x \<in> set xs. 1 \<le> x \<and> x \<le> n}"
  by (induction xs arbitrary: acc) (auto simp: add_if_in_range_def)

lemma str_nat_digits: "c \<in> set (str_nat k) \<Longrightarrow> isdigit c"
proof (induction k rule: str_nat.induct)
  case (1 k)
  show ?case
  proof (cases "k < 10")
    case True
    with "1.prems" have "c = char_of (48 + k)" by (subst (asm) str_nat.simps) simp
    with True show ?thesis by (simp add: isdigit_def)
  next
    case False
    with "1.prems" have "c \<in> set (str_nat (k div 10)) \<or> c = char_of (48 + k mod 10)"
      by (subst (asm) str_nat.simps) auto
    then show ?thesis
    proof
      assume "c \<in> set (str_nat (k div 10))"
      with "1.IH" False show ?thesis by simp
    next
      assume "c = char_of (48 + k mod 10)"
      moreover have "k mod 10 < 10" by simp
      ultimately show ?thesis by (simp add: isdigit_def)
    qed
  qed
qed

lemma str_nat_nonempty: "str_nat k \<noteq> []"
  by (subst str_nat.simps) simp



lemma int_digits_all_digits:
  "\<forall>c\<in>set ds. isdigit c \<Longrightarrow> int_digits ds acc = Some (foldl dec_step acc ds)"
  by (induction ds acc rule: int_digits.induct) (simp_all add: dec_step_def)

lemma digit_val_char_of: "d < 10 \<Longrightarrow> digit_val (char_of (48 + d)) = d"
  by (simp add: digit_val_def)

lemma foldl_dec_step_str_nat: "foldl dec_step 0 (str_nat k) = k"
proof (induction k rule: str_nat.induct)
  case (1 k)
  show ?case
  proof (cases "k < 10")
    case True
    then show ?thesis
      by (subst str_nat.simps) (simp add: dec_step_def digit_val_char_of)
  next
    case False
    with "1.IH" have ih: "foldl dec_step 0 (str_nat (k div 10)) = k div 10" by simp
    have "k mod 10 < 10" by simp
    then have dv: "digit_val (char_of (48 + k mod 10)) = k mod 10" by (rule digit_val_char_of)
    show ?thesis
      using False by (subst str_nat.simps) (simp add: ih dec_step_def dv)
  qed
qed

lemma int_unsigned_str_nat: "int_unsigned (str_nat k) = Some k"
proof (cases "str_nat k")
  case Nil
  then show ?thesis using str_nat_nonempty by simp
next
  case (Cons c cs)
  have dig: "\<forall>x\<in>set (str_nat k). isdigit x" using str_nat_digits by blast
  with Cons have c: "isdigit c" and cs: "\<forall>x\<in>set cs. isdigit x" by simp_all
  have "foldl dec_step (digit_val c) cs = k"
    using foldl_dec_step_str_nat[of k] unfolding Cons by (simp add: dec_step_def)
  then show ?thesis
    unfolding int_unsigned_def Cons using c int_digits_all_digits[OF cs]
    by simp
qed

lemma isdigit_plain:
  "isdigit c \<Longrightarrow> \<not> isspace c \<and> c \<noteq> CHR ''-'' \<and> c \<noteq> CHR ''+'' \<and> c \<noteq> CHR '',''"
  by (auto simp: isdigit_def isspace_def)

lemma strip_str_nat: "strip (str_nat k) = str_nat k"
proof -
  have "hd (str_nat k) \<in> set (str_nat k)" "last (str_nat k) \<in> set (str_nat k)"
    using str_nat_nonempty by simp_all
  then have "\<not> isspace (hd (str_nat k))" "\<not> isspace (last (str_nat k))"
    using str_nat_digits isdigit_plain by blast+
  then show ?thesis unfolding strip_def by (simp add: strip_with_id)
qed

lemma strip_int_space_str_nat: "strip_with int_space (str_nat k) = str_nat k"
proof -
  have "hd (str_nat k) \<in> set (str_nat k)" "last (str_nat k) \<in> set (str_nat k)"
    using str_nat_nonempty by simp_all
  then have "\<not> int_space (hd (str_nat k))" "\<not> int_space (last (str_nat k))"
    using str_nat_digits isdigit_plain unfolding int_space_def by blast+
  then show ?thesis by (simp add: strip_with_id)
qed

lemma py_int_str_nat: "py_int (str_nat k) = Some (int k)"
proof (cases "str_nat k")
  case Nil
  then show ?thesis using str_nat_nonempty by simp
next
  case (Cons c cs)
  then have "c \<in> set (str_nat k)" by simp
  then have "c \<noteq> CHR ''-''" "c \<noteq> CHR ''+''" using str_nat_digits isdigit_plain by blast+
  then show ?thesis
    unfolding py_int_def strip_int_space_str_nat using int_unsigned_str_nat[of k] Cons by simp
qed

lemma split_char_none: "sep \<notin> set s \<Longrightarrow> split_char sep s = [s]"
  by (induction s) auto

lemma range_token_part:
  "selection_part n (str_nat a @ ''-'' @ str_nat b) acc =
     acc \<union> {x. 1 \<le> x \<and> x \<le> n \<and> min (int a) (int b) \<le> x \<and> x \<le> max (int a) (int b)}"
proof -
  let ?t = "str_nat a @ ''-'' @ str_nat b"
  have na: "\<forall>c\<in>set (str_nat a). c \<noteq> CHR ''-''" and nb: "\<forall>c\<in>set (str_nat b). c \<noteq> CHR ''-''"
    using str_nat_digits isdigit_plain by blast+
  have "\<not> isspace (hd (str_nat a))" "\<not> isspace (last (str_nat b))"
    using str_nat_digits[of "hd (str_nat a)" a] str_nat_digits[of "last (str_nat b)" b]
      str_nat_nonempty isdigit_plain by simp_all
  then have st: "strip ?t = ?t"
    unfolding strip_def using str_nat_nonempty[of a] str_nat_nonempty[of b]
    by (intro strip_with_id) (simp add: hd_append)
  have tw: "takeWhile (\<lambda>c. c \<noteq> CHR ''-'') ?t = str_nat a"
    using na by simp
  have dw: "tl (dropWhile (\<lambda>c. c \<noteq> CHR ''-'') ?t) = str_nat b"
    using na by simp
  have rng: "{x \<in> set [s..e]. 1 \<le> x \<and> x \<le> n} = {x. 1 \<le> x \<and> x \<le> n \<and> s \<le> x \<and> x \<le> e}" for s e :: int
    by auto
  show ?thesis
    unfolding selection_part_def st Let_def tw dw strip_str_nat py_int_str_nat
    by (auto simp: fold_add_if_in_range_set)
qed

lemma range_token_no_comma: "CHR '','' \<notin> set (str_nat a @ ''-'' @ str_nat b)"
  using str_nat_digits isdigit_plain by auto

lemma parse_selection_range_token:
  "parse_selection (str_nat a @ ''-'' @ str_nat b) n =
     sorted_list_of_set {x. 1 \<le> x \<and> x \<le> n \<and> min (int a) (int b) \<le> x \<and> x \<le> max (int a) (int b)}"
proof -
  let ?t = "str_nat a @ ''-'' @ str_nat b"
  have "\<not> isspace (hd (str_nat a))" "\<not> isspace (last (str_nat b))"
    using str_nat_digits[of "hd (str_nat a)" a] str_nat_digits[of "last (str_nat b)" b]
      str_nat_nonempty isdigit_plain by simp_all
  then have st: "strip ?t = ?t"
    unfolding strip_def using str_nat_nonempty[of a] str_nat_nonempty[of b]
    by (intro strip_with_id) (simp add: hd_append)
  show ?thesis
    unfolding parse_selection_def Let_def st split_char_none[OF range_token_no_comma]
    using range_token_part[of n a b "{}"] by simp
qed

text \<open>
  C9 (amended): for non-negative integers \<^verbatim>\<open>a > b\<close> and every list length \<^verbatim>\<open>n\<close>, the token
  \<^verbatim>\<open>"a-b"\<close> selects the same indices as \<^verbatim>\<open>"b-a"\<close>, namely the indices of \<^verbatim>\<open>[1, n]\<close> between
  \<^verbatim>\<open>b\<close> and \<^verbatim>\<open>a\<close>; and for every selection string the returned list is sorted ascending,
  duplicate-free and contained in \<^verbatim>\<open>[1, n]\<close>.
\<close>

theorem parse_selection_reversed_range:
  "0 \<le> b \<Longrightarrow> b < a \<Longrightarrow>
     parse_selection (str_int a @ ''-'' @ str_int b) n =
       parse_selection (str_int b @ ''-'' @ str_int a) n \<and>
     set (parse_selection (str_int a @ ''-'' @ str_int b) n) =
       {x. 1 \<le> x \<and> x \<le> n \<and> b \<le> x \<and> x \<le> a} \<and>
     sorted (parse_selection sel n) \<and> distinct (parse_selection sel n) \<and>
     set (parse_selection sel n) \<subseteq> {1..n}"
proof -
  assume b: "0 \<le> b" and ab: "b < a"
  have fin: "finite {x. 1 \<le> x \<and> x \<le> n \<and> l \<le> x \<and> x \<le> u}" for l u :: int
    by (rule finite_subset[of _ "{1..n}"]) auto
  have sa: "str_int a = str_nat (nat a)" and sb: "str_int b = str_nat (nat b)"
    using b ab by (simp_all add: str_int_def)
  have mm: "min (int (nat a)) (int (nat b)) = b" "max (int (nat a)) (int (nat b)) = a"
    "min (int (nat b)) (int (nat a)) = b" "max (int (nat b)) (int (nat a)) = a"
    using b ab by simp_all
  show ?thesis
    unfolding sa sb parse_selection_range_token mm
    using parse_selection_sorted_distinct_range[of sel n] fin by simp
qed

theorem parse_selection_reversed_range_witness:
  "(0::int) \<le> 2 \<and> (2::int) < 5 \<and>
   parse_selection ''5-2'' 6 = parse_selection ''2-5'' 6 \<and>
   set (parse_selection ''5-2'' 6) = {2, 3, 4, 5} \<and>
   sorted (parse_selection ''2,4-6,99'' 6) \<and> distinct (parse_selection ''2,4-6,99'' 6) \<and>
   set (parse_selection ''2,4-6,99'' 6) \<subseteq> {1..6}"
proof -
  have h1: "(0::int) \<le> 2" and h2: "(2::int) < 5" by simp_all
  have s: "str_int 5 = ''5''" "str_int 2 = ''2''" by code_simp+
  have e: "{x. 1 \<le> x \<and> x \<le> 6 \<and> 2 \<le> x \<and> x \<le> (5::int)} = {2, 3, 4, 5}" by auto
  note r = parse_selection_reversed_range[OF h1 h2, of 6 "''2,4-6,99''", unfolded s e, simplified append.simps]
  show ?thesis using h1 h2 r by blast
qed

text \<open>
  C9 (as stated) speaks of all integers \<^verbatim>\<open>a > b\<close>. With a negative \<^verbatim>\<open>b\<close> the two tokens
  differ: \<^verbatim>\<open>"3--2"\<close> splits at its first dash into \<^verbatim>\<open>3\<close> and \<^verbatim>\<open>-2\<close> and selects
  \<^verbatim>\<open>[1, 2, 3]\<close>, while \<^verbatim>\<open>"-2-3"\<close> splits into the empty string and \<^verbatim>\<open>2-3\<close>, fails
  \<^verbatim>\<open>int\<close> and is ignored.
\<close>

theorem parse_selection_negative_endpoint:
  "parse_selection (str_int 3 @ ''-'' @ str_int (- 2)) 5 \<noteq>
   parse_selection (str_int (- 2) @ ''-'' @ str_int 3) 5"
  by code_simp

section \<open>C6: slugs\<close>











lemma url_to_page_slug_length:
  "url_to_page_slug E u = Some s \<Longrightarrow> length s \<le> 140"
proof -
  assume a: "url_to_page_slug E u = Some s"
  have "length (if 140 < length t then take 140 t else t) \<le> 140" for t :: string
    by simp
  with a show ?thesis
    unfolding url_to_page_slug_def Let_def by (cases "urlsplit E u") auto
qed









section \<open>C3: the heading prefix\<close>

text \<open>
  C3: each heading contributes its \<^verbatim>\<open>#\<close> prefix exactly once, also when its text arrives in
  several chunks. The handler's own comment says so, but its test looks at the last
  element of \<^verbatim>\<open>out\<close>, which after the first chunk is that chunk and not the prefix. For
  \<^verbatim>\<open><h2>Set<b>up</b></h2>\<close> the tokenizer delivers the events below, and the prefix is
  written before each of the two chunks.
\<close>

theorem heading_prefix_repeated:
  "out (fold md_handle
          [StartTag ''h2'' [], Data ''Set'', StartTag ''b'' [], Data ''up'', EndTag ''b'',
           EndTag ''h2''] md_init) =
     [''\<newline>\<newline>'', ''## '', ''Set'', ''## '', ''up'', ''\<newline>\<newline>''] \<and>
   get_text (fold md_handle
          [StartTag ''h2'' [], Data ''Set'', StartTag ''b'' [], Data ''up'', EndTag ''b'',
           EndTag ''h2''] md_init) = ''## Set## up\<newline>''"
  by code_simp

section \<open>C8: fetch retries and returns nothing on failure\<close>

lemma all_less_Suc_shift: "(\<forall>k<Suc n. P k) \<longleftrightarrow> P 0 \<and> (\<forall>k<n. P (Suc k))"
  by (auto simp: less_Suc_eq_0_disj)

lemma fetch_attempts_none_iff:
  "fst (fetch_attempts E u t as w) = None \<longleftrightarrow>
   (\<forall>k<length as. attempt_fails (urlopen E (length (requests w) + k) u t))"
proof (induction as arbitrary: w)
  case Nil
  then show ?case by simp
next
  case (Cons a as)
  show ?case
  proof (cases "urlopen E (length (requests w)) u t")
    case (Response st items b)
    then show ?thesis by (simp add: Let_def all_less_Suc_shift)
  next
    case Raises_URLError
    then show ?thesis
      using Cons.IH[of "w\<lparr>requests := requests w @ [u], sleeps := sleeps w @ [backoff_ms a]\<rparr>"]
      by (simp add: Let_def all_less_Suc_shift)
  next
    case Raises_Other
    then show ?thesis
      using Cons.IH[of "w\<lparr>requests := requests w @ [u], sleeps := sleeps w @ [backoff_ms a]\<rparr>"]
      by (simp add: Let_def all_less_Suc_shift)
  qed
qed

lemma fetch_attempts_all_fail:
  "\<forall>k<length as. attempt_fails (urlopen E (length (requests w) + k) u t) \<Longrightarrow>
   fetch_attempts E u t as w =
     (None, w\<lparr>requests := requests w @ replicate (length as) u,
               sleeps := sleeps w @ map backoff_ms as\<rparr>)"
proof (induction as arbitrary: w)
  case Nil
  then show ?case by simp
next
  case (Cons a as)
  let ?w2 = "w\<lparr>requests := requests w @ [u], sleeps := sleeps w @ [backoff_ms a]\<rparr>"
  from Cons.prems have f0: "attempt_fails (urlopen E (length (requests w)) u t)"
    by (simp add: all_less_Suc_shift)
  from Cons.prems have "\<forall>k<length as. attempt_fails (urlopen E (length (requests ?w2) + k) u t)"
    by (simp add: all_less_Suc_shift)
  from Cons.IH[OF this] have ih: "fetch_attempts E u t as ?w2 =
     (None, ?w2\<lparr>requests := requests ?w2 @ replicate (length as) u,
                 sleeps := sleeps ?w2 @ map backoff_ms as\<rparr>)" .
  show ?case
    using f0 ih
    by (cases "urlopen E (length (requests w)) u t") (simp_all add: Let_def replicate_app_Cons_same)
qed

lemma fetch_attempts_request_count:
  "length (requests (snd (fetch_attempts E u t as w))) \<le> length (requests w) + length as"
proof (induction as arbitrary: w)
  case Nil
  then show ?case by simp
next
  case (Cons a as)
  let ?w2 = "w\<lparr>requests := requests w @ [u], sleeps := sleeps w @ [backoff_ms a]\<rparr>"
  from Cons.IH[of ?w2] show ?case
    by (cases "urlopen E (length (requests w)) u t") (simp_all add: Let_def)
qed

text \<open>
  C8: \<^verbatim>\<open>fetch(url, timeout, retries)\<close> returns a value in every case (each exception of an
  attempt is a caught branch of the model). It makes at most \<^verbatim>\<open>retries + 1\<close> attempts; it
  returns \<^verbatim>\<open>None\<close> exactly when every one of them raised, and then it has made all
  \<^verbatim>\<open>retries + 1\<close> requests and slept 0.4 s times the attempt number after each.
\<close>

theorem fetch_retries_then_none:
  "length (requests (snd (fetch_with E u t retries w))) \<le> length (requests w) + nat (retries + 1) \<and>
   (fst (fetch_with E u t retries w) = None \<longleftrightarrow>
      (\<forall>k<nat (retries + 1). attempt_fails (urlopen E (length (requests w) + k) u t))) \<and>
   (fst (fetch_with E u t retries w) = None \<longrightarrow>
      snd (fetch_with E u t retries w) =
        w\<lparr>requests := requests w @ replicate (nat (retries + 1)) u,
           sleeps := sleeps w @ map (\<lambda>attempt. 400 * (attempt + 1)) [0..<nat (retries + 1)]\<rparr>)"
proof -
  let ?as = "[0..<nat (retries + 1)]"
  have len: "length ?as = nat (retries + 1)" by simp
  have bo: "map backoff_ms ?as = map (\<lambda>attempt. 400 * (attempt + 1)) ?as"
    by (simp add: backoff_ms_def)
  have a: "length (requests (snd (fetch_attempts E u t ?as w))) \<le> length (requests w) + nat (retries + 1)"
    using fetch_attempts_request_count[of E u t ?as w] unfolding len .
  have b: "fst (fetch_attempts E u t ?as w) = None \<longleftrightarrow>
      (\<forall>k<nat (retries + 1). attempt_fails (urlopen E (length (requests w) + k) u t))"
    using fetch_attempts_none_iff[of E u t ?as w] unfolding len .
  have c: "fst (fetch_attempts E u t ?as w) = None \<longrightarrow>
      snd (fetch_attempts E u t ?as w) =
        w\<lparr>requests := requests w @ replicate (nat (retries + 1)) u,
           sleeps := sleeps w @ map (\<lambda>attempt. 400 * (attempt + 1)) ?as\<rparr>"
  proof
    assume "fst (fetch_attempts E u t ?as w) = None"
    with b have "\<forall>k<length ?as. attempt_fails (urlopen E (length (requests w) + k) u t)"
      unfolding len by simp
    from fetch_attempts_all_fail[OF this] show "snd (fetch_attempts E u t ?as w) =
        w\<lparr>requests := requests w @ replicate (nat (retries + 1)) u,
           sleeps := sleeps w @ map (\<lambda>attempt. 400 * (attempt + 1)) ?as\<rparr>"
      unfolding len bo by simp
  qed
  show ?thesis unfolding fetch_with_def using a b c by (intro conjI)
qed

theorem fetch_retries_then_none_witness:
  "fst (fetch_with offline_env ''https://example.com/a'' 30 2 empty_world) = None \<and>
   snd (fetch_with offline_env ''https://example.com/a'' 30 2 empty_world) =
     empty_world\<lparr>requests := requests empty_world @ replicate (nat (2 + 1)) ''https://example.com/a'',
        sleeps := sleeps empty_world @ map (\<lambda>attempt. 400 * (attempt + 1)) [0..<nat (2 + 1)]\<rparr>"
proof -
  have h: "\<forall>k<nat (2 + 1). attempt_fails (urlopen offline_env (length (requests empty_world) + k)
        ''https://example.com/a'' 30)"
    by (simp add: offline_env_def)
  from fetch_retries_then_none[of offline_env "''https://example.com/a''" 30 2 empty_world] h
  show ?thesis by blast
qed

section \<open>C10: decoding never raises\<close>

text \<open>
  C10: \<^verbatim>\<open>decode_bytes\<close> returns a string for every body and header mapping. The only fact
  used about the library is that decoding this body as UTF-8 with replacement gives a
  string \<^verbatim>\<open>fb\<close> (that codec accepts every byte string). The result is the decoding in the
  declared charset when there is one and its codec does not raise; otherwise (no charset
  declared, unknown or invalid codec, any other exception) it is the UTF-8 fallback.
\<close>

theorem decode_bytes_total:
  assumes "bytes_decode E ''utf-8'' b = Some fb"
  shows "decode_bytes E b hdrs =
           Inr (case find_charset (header_get hdrs ''Content-Type'') of
                  Some enc \<Rightarrow> (case bytes_decode E (strip enc) b of Some s \<Rightarrow> s | None \<Rightarrow> fb)
                | None \<Rightarrow> fb)"
  unfolding decode_bytes_def Let_def using assms
  by (simp split: option.splits)

theorem decode_bytes_total_witness:
  "bytes_decode (offline_env\<lparr>bytes_decode := \<lambda>enc b. if enc = ''utf-8'' then Some b else None\<rparr>)
     ''utf-8'' ''abc'' = Some ''abc'' \<and>
   decode_bytes (offline_env\<lparr>bytes_decode := \<lambda>enc b. if enc = ''utf-8'' then Some b else None\<rparr>)
     ''abc'' [''Content-Type'' \<mapsto> ''text/html; charset=klingon''] = Inr ''abc''"
proof -
  let ?E = "offline_env\<lparr>bytes_decode := \<lambda>enc b. if enc = ''utf-8'' then Some b else None\<rparr>"
  have h: "bytes_decode ?E ''utf-8'' ''abc'' = Some ''abc''" by simp
  have c: "find_charset (header_get [''Content-Type'' \<mapsto> ''text/html; charset=klingon''] ''Content-Type'')
             = Some ''klingon''"
    by (simp add: header_get_def lower_def ascii_lower_def slug_safe_def is_ascii_alpha_def isdigit_def)
  have s: "strip ''klingon'' = ''klingon''"
    by (simp add: strip_def strip_with_def lstrip_with_def rstrip_with_def isspace_def)
  from decode_bytes_total[OF h, of "[''Content-Type'' \<mapsto> ''text/html; charset=klingon'']"]
  show ?thesis unfolding c s using h by simp
qed

section \<open>C7: one level of sitemap index\<close>

lemma url_loop_entries:
  "url_loop ns uels urls = urls @ concat (map (loc_entry ns) uels)"
  by (induction uels arbitrary: urls) (simp_all add: loc_entry_def split: option.splits)

lemma fetch_attempts_stable:
  "stable_network E \<Longrightarrow>
   fst (fetch_attempts E u t as w) = fst (fetch_attempts E u t as w')"
proof (induction as arbitrary: w w')
  case Nil
  then show ?case by simp
next
  case (Cons a as)
  from Cons.prems have e: "urlopen E (length (requests w)) u t = urlopen E (length (requests w')) u t"
    unfolding stable_network_def by metis
  show ?case
  proof (cases "urlopen E (length (requests w')) u t")
    case (Response st items b)
    with e show ?thesis by (simp add: Let_def)
  next
    case Raises_URLError
    with e Cons.IH[OF Cons.prems] show ?thesis by (simp add: Let_def)
  next
    case Raises_Other
    with e Cons.IH[OF Cons.prems] show ?thesis by (simp add: Let_def)
  qed
qed

lemma fetch_stable:
  "stable_network E \<Longrightarrow> fst (fetch E u w) = fst (fetch E u empty_world)"
  unfolding fetch_def fetch_with_def by (rule fetch_attempts_stable)

lemma fetch_attempts_requests:
  "set (requests (snd (fetch_attempts E u t as w))) \<subseteq> set (requests w) \<union> {u}"
proof (induction as arbitrary: w)
  case Nil
  then show ?case by auto
next
  case (Cons a as)
  let ?w2 = "w\<lparr>requests := requests w @ [u], sleeps := sleeps w @ [backoff_ms a]\<rparr>"
  from Cons.IH[of ?w2] show ?case
    by (cases "urlopen E (length (requests w)) u t") (auto simp: Let_def)
qed

lemma fetch_requests:
  "set (requests (snd (fetch E u w))) \<subseteq> set (requests w) \<union> {u}"
  unfolding fetch_def fetch_with_def by (rule fetch_attempts_requests)

lemma index_loop_entries:
  assumes "stable_network E"
  shows "fst (index_loop E ns sms urls w) =
         urls @ concat (map (leaf_entries E) (filter (\<lambda>l. l \<noteq> []) (map (get_loc ns) sms)))"
proof (induction sms arbitrary: urls w)
  case Nil
  then show ?case by simp
next
  case (Cons sm sms)
  show ?case
  proof (cases "get_loc ns sm = []")
    case True
    then show ?thesis using Cons.IH by simp
  next
    case False
    obtain sub w1 where f: "fetch E (get_loc ns sm) w = (sub, w1)" by (cases "fetch E (get_loc ns sm) w")
    then have sub: "fst (fetch E (get_loc ns sm) empty_world) = sub"
      using fetch_stable[OF assms, of "get_loc ns sm" w] by simp
    show ?thesis
    proof (cases "usable sub")
      case u: False
      then have "leaf_entries E (get_loc ns sm) = []"
        by (simp add: leaf_entries_def leaf_document_def sub)
      then show ?thesis using False f u Cons.IH by simp
    next
      case u: True
      show ?thesis
      proof (cases "decode_bytes E (body (the sub)) (headers (the sub))")
        case (Inl e)
        then have "leaf_entries E (get_loc ns sm) = []"
          by (simp add: leaf_entries_def leaf_document_def sub u)
        then show ?thesis using False f u Inl Cons.IH by simp
      next
        case (Inr t)
        show ?thesis
        proof (cases "et_fromstring_bytes E (utf8_encode_ignore E t)")
          case None
          then have "leaf_entries E (get_loc ns sm) = []"
            by (simp add: leaf_entries_def leaf_document_def sub u Inr)
          then show ?thesis using False f u Inr None Cons.IH by simp
        next
          case (Some sub_root)
          then have "leaf_entries E (get_loc ns sm) = url_loc_entries sub_root"
            by (simp add: leaf_entries_def leaf_document_def sub u Inr)
          then show ?thesis
            using False f u Inr Some Cons.IH
            by (simp add: Let_def url_loop_entries url_loc_entries_def)
        qed
      qed
    qed
  qed
qed

lemma index_loop_requests:
  "set (requests (snd (index_loop E ns sms urls w))) \<subseteq>
   set (requests w) \<union> set (filter (\<lambda>l. l \<noteq> []) (map (get_loc ns) sms))"
proof (induction sms arbitrary: urls w)
  case Nil
  then show ?case by simp
next
  case (Cons sm sms)
  show ?case
  proof (cases "get_loc ns sm = []")
    case True
    then show ?thesis using Cons.IH by simp
  next
    case False
    obtain sub w1 where f: "fetch E (get_loc ns sm) w = (sub, w1)" by (cases "fetch E (get_loc ns sm) w")
    then have r: "set (requests w1) \<subseteq> set (requests w) \<union> {get_loc ns sm}"
      using fetch_requests[of E "get_loc ns sm" w] by simp
    have step: "set (requests (snd (index_loop E ns sms us w1))) \<subseteq>
        set (requests w) \<union> set (filter (\<lambda>l. l \<noteq> []) (map (get_loc ns) (sm # sms)))" for us
      using Cons.IH[of us w1] r False by auto
    show ?thesis
      using False f step
      by (simp add: Let_def split: sum.splits option.splits del: filter.simps list.map)
  qed
qed

lemma no_url_children_no_entries:
  assumes "list_all (\<lambda>c. etag c = ns_of_tag (etag leaf) @ ''sitemap'') (echildren leaf)"
  shows "url_loc_entries leaf = []"
proof -
  have "etag c \<noteq> ns_of_tag (etag leaf) @ ''url''" if "c \<in> set (echildren leaf)" for c
    using assms that by (auto simp: list_all_iff)
  then have "findall_children (ns_of_tag (etag leaf) @ ''url'') leaf = []"
    unfolding findall_children_def by (simp add: filter_empty_conv)
  then show ?thesis by (simp add: url_loc_entries_def)
qed

text \<open>
  C7: when the parsed sitemap document is a sitemap index (and the network answers a
  request the same way whenever it is asked), the URLs collected before filtering are the
  \<^verbatim>\<open><url><loc>\<close> entries of the member sitemaps, in order; only the members' own locations
  are requested; and a member that is itself a sitemap index, with \<^verbatim>\<open>sitemap\<close> children
  only, has no such entries, so it contributes nothing and is not followed.
\<close>

theorem sitemap_index_one_level:
  assumes "stable_network E" and "endswith (etag root_el) ''sitemapindex''"
  shows "fst (collect_urls E root_el w) = concat (map (leaf_entries E) (member_locs root_el)) \<and>
         set (requests (snd (collect_urls E root_el w))) \<subseteq>
           set (requests w) \<union> set (member_locs root_el) \<and>
         (list_all (\<lambda>c. etag c = ns_of_tag (etag leaf) @ ''sitemap'') (echildren leaf) \<longrightarrow>
            url_loc_entries leaf = [])"
proof (intro conjI impI)
  show "fst (collect_urls E root_el w) = concat (map (leaf_entries E) (member_locs root_el))"
    unfolding collect_urls_def Let_def member_locs_def
    using assms(2) index_loop_entries[OF assms(1)] by simp
  show "set (requests (snd (collect_urls E root_el w))) \<subseteq>
           set (requests w) \<union> set (member_locs root_el)"
    unfolding collect_urls_def Let_def member_locs_def
    using assms(2) index_loop_requests by simp
  show "url_loc_entries leaf = []"
    if "list_all (\<lambda>c. etag c = ns_of_tag (etag leaf) @ ''sitemap'') (echildren leaf)"
    using that by (rule no_url_children_no_entries)
qed

theorem sitemap_index_one_level_witness:
  "fst (collect_urls index_site
          (sitemapindex_doc [''https://example.com/sm-a.xml'', ''https://example.com/sm-b.xml''])
          empty_world) = [''https://example.com/p1'', ''https://example.com/p2''] \<and>
   set (requests (snd (collect_urls index_site
          (sitemapindex_doc [''https://example.com/sm-a.xml'', ''https://example.com/sm-b.xml''])
          empty_world))) \<subseteq> {''https://example.com/sm-a.xml'', ''https://example.com/sm-b.xml''} \<and>
   url_loc_entries (sitemapindex_doc [''https://example.com/sm-c.xml'']) = []"
proof -
  let ?root = "sitemapindex_doc [''https://example.com/sm-a.xml'', ''https://example.com/sm-b.xml'']"
  let ?leaf = "sitemapindex_doc [''https://example.com/sm-c.xml'']"
  have st: "stable_network index_site"
    by (simp add: stable_network_def index_site_def site_env_def)
  have ix: "endswith (etag ?root) ''sitemapindex''" by code_simp
  have ml: "member_locs ?root = [''https://example.com/sm-a.xml'', ''https://example.com/sm-b.xml'']"
    by code_simp
  have le: "concat (map (leaf_entries index_site)
              [''https://example.com/sm-a.xml'', ''https://example.com/sm-b.xml'']) =
            [''https://example.com/p1'', ''https://example.com/p2'']"
    by code_simp
  have nested: "list_all (\<lambda>c. etag c = ns_of_tag (etag ?leaf) @ ''sitemap'') (echildren ?leaf)"
    by code_simp
  have rq: "requests empty_world = []" by (simp add: empty_world_def)
  from sitemap_index_one_level[OF st ix, of empty_world ?leaf] nested
  show ?thesis unfolding ml le rq by simp
qed

section \<open>C1: the path filter of the sitemap probe\<close>

text \<open>
  C1: every discovered URL has a path equal to the base path or below it at a \<^verbatim>\<open>/\<close>
  boundary. The manifest scan tests exactly that; the sitemap probe (and the navigation
  scrape) test \<^verbatim>\<open>path.startswith(base_path)\<close> only. For the base \<^verbatim>\<open>https://example.com/docs\<close>
  the sitemap probe returns a page of \<^verbatim>\<open>/docs-old\<close>, whose path is neither \<^verbatim>\<open>/docs\<close> nor
  starts with \<^verbatim>\<open>/docs/\<close>.
\<close>

theorem sitemap_filter_sibling_directory:
  "fst (fetch_sitemap_urls docs_site ''https://example.com/docs'' empty_world) =
     Inr [''https://example.com/docs-old/x'', ''https://example.com/docs/a''] \<and>
   map_option path (urlsplit docs_site ''https://example.com/docs-old/x'') = Some ''/docs-old/x'' \<and>
   ''/docs-old/x'' \<noteq> ''/docs'' \<and> \<not> startswith ''/docs-old/x'' ''/docs/''"
  by code_simp

section \<open>C2: which sitemap candidate is used\<close>

lemma first_sitemap_text_prefix:
  assumes st: "stable_network E"
    and s: "candidate_text E s = Some t"
  shows "\<forall>c\<in>set pre. candidate_text E c = None \<Longrightarrow>
         fst (first_sitemap_text E (pre @ s # post) w) = Some t \<and>
         set (requests (snd (first_sitemap_text E (pre @ s # post) w))) \<subseteq>
           set (requests w) \<union> set (pre @ [s])"
proof (induction pre arbitrary: w)
  case Nil
  obtain r w1 where f: "fetch E s w = (r, w1)" by (cases "fetch E s w")
  then have r: "fst (fetch E s empty_world) = r"
    using fetch_stable[OF st, of s w] by simp
  have rq: "set (requests w1) \<subseteq> set (requests w) \<union> {s}"
    using fetch_requests[of E s w] f by simp
  from s have u: "usable r" and d: "decode_bytes E (body (the r)) (headers (the r)) = Inr t"
    unfolding candidate_text_def Let_def r
    by (auto split: if_splits sum.splits)
  show ?case using f u d rq by simp
next
  case (Cons c pre)
  obtain r w1 where f: "fetch E c w = (r, w1)" by (cases "fetch E c w")
  then have r: "fst (fetch E c empty_world) = r"
    using fetch_stable[OF st, of c w] by simp
  have rq: "set (requests w1) \<subseteq> set (requests w) \<union> {c}"
    using fetch_requests[of E c w] f by simp
  from Cons.prems have cn: "candidate_text E c = None"
    and rest: "\<forall>c\<in>set pre. candidate_text E c = None" by simp_all
  have step: "first_sitemap_text E ((c # pre) @ s # post) w =
              first_sitemap_text E (pre @ s # post) w1"
  proof (cases "usable r")
    case False
    then show ?thesis using f by simp
  next
    case True
    with cn obtain e where "decode_bytes E (body (the r)) (headers (the r)) = Inl e"
      unfolding candidate_text_def Let_def r by (auto split: sum.splits)
    then show ?thesis using f True by simp
  qed
  from Cons.IH[OF rest, of w1] rq show ?case unfolding step by auto
qed

text \<open>
  C2 (as stated): when an earlier candidate is fetched but fails XML parsing, a later
  candidate that parses is still used. It is not: the loop stops at the first candidate
  that is fetched and decoded, and a parse failure after the loop returns the empty list.
  Here \<^verbatim>\<open>/docs/sitemap.xml\<close> is served with status 200 but is an HTML page that is not
  well-formed XML, and \<^verbatim>\<open>/sitemap.xml\<close> is a well-formed sitemap that lists a page under
  \<^verbatim>\<open>/docs\<close>, which the filter of the probe would keep. The probe makes one request and
  finds nothing.
\<close>

theorem sitemap_later_candidate_unused:
  "fst (fetch_sitemap_urls broken_first_site ''https://example.com/docs'' empty_world) = Inr [] \<and>
   requests (snd (fetch_sitemap_urls broken_first_site ''https://example.com/docs'' empty_world)) =
     [''https://example.com/docs/sitemap.xml''] \<and>
   candidate_text broken_first_site ''https://example.com/docs/sitemap.xml'' =
     Some ''<html><body><p>Not found<br></body></html>'' \<and>
   parse_xml_text broken_first_site ''<html><body><p>Not found<br></body></html>'' = None \<and>
   candidate_text broken_first_site ''https://example.com/sitemap.xml'' =
     Some ''<urlset><url><loc>https://example.com/docs/v2/a</loc></url></urlset>'' \<and>
   parse_xml_text broken_first_site
       ''<urlset><url><loc>https://example.com/docs/v2/a</loc></url></urlset>'' =
     Some (Elem ''urlset'' None
             [Elem ''url'' None [Elem ''loc'' (Some ''https://example.com/docs/v2/a'') []]]) \<and>
   sitemap_filter broken_first_site ''https://example.com/docs'' ''/docs''
       (url_loc_entries
          (Elem ''urlset'' None
             [Elem ''url'' None [Elem ''loc'' (Some ''https://example.com/docs/v2/a'') []]])) [] =
     Inr [''https://example.com/docs/v2/a'']"
  by code_simp

text \<open>
  C2 (amended): on a network whose answers do not change between requests, the probe goes
  through \<^verbatim>\<open>sitemap.xml\<close> at the base path, \<^verbatim>\<open>sitemap.xml\<close> at the root, \<^verbatim>\<open>sitemap.xml.gz\<close> at
  the base path and \<^verbatim>\<open>sitemap.xml.gz\<close> at the root, in this order, and stops at the first
  candidate \<open>s\<close> that is fetched with status 200 and a non-empty body and decodes (every
  candidate \<open>pre\<close> before it is not): the requests it makes for the candidates are requests
  of \<open>pre\<close> and \<open>s\<close> only, none of a later candidate. If the text of \<open>s\<close> is empty or does not
  parse as XML, the probe returns no pages, whatever the later candidates hold; if it
  parses, the pages are collected from that document and filtered.
\<close>

theorem sitemap_first_usable_candidate:
  assumes "stable_network E"
    and "split_root_and_base E base_url = Some (root, base)"
    and "urlsplit E base = Some bp"
    and "[base @ ''/sitemap.xml'', root @ ''/sitemap.xml'',
          base @ ''/sitemap.xml.gz'', root @ ''/sitemap.xml.gz''] = pre @ s # post"
    and "\<forall>c\<in>set pre. candidate_text E c = None"
    and "candidate_text E s = Some t"
  shows "(t = [] \<or> parse_xml_text E t = None \<longrightarrow>
            fst (fetch_sitemap_urls E base_url w) = Inr [] \<and>
            set (requests (snd (fetch_sitemap_urls E base_url w))) \<subseteq>
              set (requests w) \<union> set (pre @ [s])) \<and>
         (t \<noteq> [] \<and> parse_xml_text E t = Some root_el \<longrightarrow>
            (\<exists>w1. set (requests w1) \<subseteq> set (requests w) \<union> set (pre @ [s]) \<and>
                  fetch_sitemap_urls E base_url w =
                    (sitemap_filter E (rstrip_chars ''/'' base) (rstrip_chars ''/'' (path bp))
                       (fst (collect_urls E root_el w1)) [],
                     snd (collect_urls E root_el w1))))"
proof -
  let ?cands = "[base @ ''/sitemap.xml'', root @ ''/sitemap.xml'',
            base @ ''/sitemap.xml.gz'', root @ ''/sitemap.xml.gz'']"
  obtain x w1 where fs: "first_sitemap_text E ?cands w = (x, w1)"
    by (cases "first_sitemap_text E ?cands w")
  have p: "fst (first_sitemap_text E (pre @ s # post) w) = Some t \<and>
           set (requests (snd (first_sitemap_text E (pre @ s # post) w))) \<subseteq>
             set (requests w) \<union> set (pre @ [s])"
    by (rule first_sitemap_text_prefix[OF assms(1) assms(6) assms(5)])
  from p fs have x: "x = Some t"
    and rq: "set (requests w1) \<subseteq> set (requests w) \<union> set (pre @ [s])"
    unfolding assms(4)[symmetric] by simp_all
  have unf: "fetch_sitemap_urls E base_url w =
      (if t = [] then (Inr [], w1)
       else (case parse_xml_text E t of
               None \<Rightarrow> (Inr [], w1)
             | Some root_el \<Rightarrow>
                 let (urls, w2) = collect_urls E root_el w1
                 in (sitemap_filter E (rstrip_chars ''/'' base) (rstrip_chars ''/'' (path bp)) urls [], w2)))"
    unfolding fetch_sitemap_urls_def using assms(2,3) fs x by (simp add: Let_def)
  have a: "t = [] \<or> parse_xml_text E t = None \<longrightarrow>
            fst (fetch_sitemap_urls E base_url w) = Inr [] \<and>
            set (requests (snd (fetch_sitemap_urls E base_url w))) \<subseteq>
              set (requests w) \<union> set (pre @ [s])"
  proof
    assume h: "t = [] \<or> parse_xml_text E t = None"
    then have "fetch_sitemap_urls E base_url w = (Inr [], w1)"
      unfolding unf by auto
    with rq show "fst (fetch_sitemap_urls E base_url w) = Inr [] \<and>
            set (requests (snd (fetch_sitemap_urls E base_url w))) \<subseteq>
              set (requests w) \<union> set (pre @ [s])"
      by simp
  qed
  have b: "t \<noteq> [] \<and> parse_xml_text E t = Some root_el \<longrightarrow>
            (\<exists>w1. set (requests w1) \<subseteq> set (requests w) \<union> set (pre @ [s]) \<and>
                  fetch_sitemap_urls E base_url w =
                    (sitemap_filter E (rstrip_chars ''/'' base) (rstrip_chars ''/'' (path bp))
                       (fst (collect_urls E root_el w1)) [],
                     snd (collect_urls E root_el w1)))"
  proof
    assume h: "t \<noteq> [] \<and> parse_xml_text E t = Some root_el"
    have "fetch_sitemap_urls E base_url w =
                    (sitemap_filter E (rstrip_chars ''/'' base) (rstrip_chars ''/'' (path bp))
                       (fst (collect_urls E root_el w1)) [],
                     snd (collect_urls E root_el w1))"
      unfolding unf using h by (simp add: Let_def split: prod.splits)
    with rq show "\<exists>w1. set (requests w1) \<subseteq> set (requests w) \<union> set (pre @ [s]) \<and>
                  fetch_sitemap_urls E base_url w =
                    (sitemap_filter E (rstrip_chars ''/'' base) (rstrip_chars ''/'' (path bp))
                       (fst (collect_urls E root_el w1)) [],
                     snd (collect_urls E root_el w1))"
      by blast
  qed
  from a b show ?thesis ..
qed

theorem sitemap_first_usable_candidate_witness:
  "candidate_text broken_first_site ''https://example.com/docs/sitemap.xml'' =
     Some ''<html><body><p>Not found<br></body></html>'' \<and>
   parse_xml_text broken_first_site ''<html><body><p>Not found<br></body></html>'' = None \<and>
   fst (fetch_sitemap_urls broken_first_site ''https://example.com/docs''
          (empty_world\<lparr>requests := [''https://example.com/robots.txt'']\<rparr>)) = Inr [] \<and>
   set (requests (snd (fetch_sitemap_urls broken_first_site ''https://example.com/docs''
          (empty_world\<lparr>requests := [''https://example.com/robots.txt'']\<rparr>)))) \<subseteq>
     {''https://example.com/robots.txt'', ''https://example.com/docs/sitemap.xml''} \<and>
   candidate_text broken_first_site ''https://example.com/docs/v2/sitemap.xml'' = None \<and>
   candidate_text broken_first_site ''https://example.com/sitemap.xml'' =
     Some ''<urlset><url><loc>https://example.com/docs/v2/a</loc></url></urlset>'' \<and>
   fst (fetch_sitemap_urls broken_first_site ''https://example.com/docs/v2'' empty_world) =
     Inr [''https://example.com/docs/v2/a'']"
proof -
  let ?E = broken_first_site
  let ?nf = "''<html><body><p>Not found<br></body></html>''"
  let ?good = "''<urlset><url><loc>https://example.com/docs/v2/a</loc></url></urlset>''"
  let ?doc = "Elem ''urlset'' None
                [Elem ''url'' None [Elem ''loc'' (Some ''https://example.com/docs/v2/a'') []]]"
  let ?w = "empty_world\<lparr>requests := [''https://example.com/robots.txt'']\<rparr>"
  have st: "stable_network ?E"
    by (simp add: stable_network_def broken_first_site_def site_env_def)
  have sp: "split_root_and_base ?E ''https://example.com/docs'' =
              Some (''https://example.com'', ''https://example.com/docs'')"
    by code_simp
  have us: "urlsplit ?E ''https://example.com/docs'' =
              Some \<lparr>scheme = ''https'', netloc = ''example.com'', path = ''/docs'',
                    query = [], fragment = []\<rparr>"
    by code_simp
  have c1: "[''https://example.com/docs'' @ ''/sitemap.xml'', ''https://example.com'' @ ''/sitemap.xml'',
             ''https://example.com/docs'' @ ''/sitemap.xml.gz'',
             ''https://example.com'' @ ''/sitemap.xml.gz''] =
            [] @ ''https://example.com/docs/sitemap.xml'' #
              [''https://example.com/sitemap.xml'', ''https://example.com/docs/sitemap.xml.gz'',
               ''https://example.com/sitemap.xml.gz'']"
    by simp
  have p1: "\<forall>c\<in>set []. candidate_text ?E c = None" by simp
  have t1: "candidate_text ?E ''https://example.com/docs/sitemap.xml'' = Some ?nf" by code_simp
  have pn: "parse_xml_text ?E ?nf = None" by code_simp
  have a: "fst (fetch_sitemap_urls ?E ''https://example.com/docs'' ?w) = Inr [] \<and>
           set (requests (snd (fetch_sitemap_urls ?E ''https://example.com/docs'' ?w))) \<subseteq>
             {''https://example.com/robots.txt'', ''https://example.com/docs/sitemap.xml''}"
    using sitemap_first_usable_candidate[where w = "?w", OF st sp us c1 p1 t1] pn
    by (simp add: empty_world_def insert_commute)
  have sp2: "split_root_and_base ?E ''https://example.com/docs/v2'' =
              Some (''https://example.com'', ''https://example.com/docs/v2'')"
    by code_simp
  have us2: "urlsplit ?E ''https://example.com/docs/v2'' =
              Some \<lparr>scheme = ''https'', netloc = ''example.com'', path = ''/docs/v2'',
                    query = [], fragment = []\<rparr>"
    by code_simp
  have c2: "[''https://example.com/docs/v2'' @ ''/sitemap.xml'', ''https://example.com'' @ ''/sitemap.xml'',
             ''https://example.com/docs/v2'' @ ''/sitemap.xml.gz'',
             ''https://example.com'' @ ''/sitemap.xml.gz''] =
            [''https://example.com/docs/v2/sitemap.xml''] @ ''https://example.com/sitemap.xml'' #
              [''https://example.com/docs/v2/sitemap.xml.gz'', ''https://example.com/sitemap.xml.gz'']"
    by simp
  have n2: "candidate_text ?E ''https://example.com/docs/v2/sitemap.xml'' = None" by code_simp
  then have p2: "\<forall>c\<in>set [''https://example.com/docs/v2/sitemap.xml'']. candidate_text ?E c = None"
    by simp
  have t2: "candidate_text ?E ''https://example.com/sitemap.xml'' = Some ?good" by code_simp
  have ne: "?good \<noteq> []" by simp
  have pg: "parse_xml_text ?E ?good = Some ?doc" by code_simp
  have cu: "fst (collect_urls ?E ?doc w1) = [''https://example.com/docs/v2/a'']" for w1
  proof -
    have e: "endswith (etag ?doc) ''sitemapindex'' = False" by code_simp
    have l: "url_loop (ns_of_tag (etag ?doc))
               (findall_children (ns_of_tag (etag ?doc) @ ''url'') ?doc) [] =
             [''https://example.com/docs/v2/a'']"
      by code_simp
    show ?thesis unfolding collect_urls_def Let_def e l by simp
  qed
  have sf: "sitemap_filter ?E (rstrip_chars ''/'' ''https://example.com/docs/v2'')
              (rstrip_chars ''/'' ''/docs/v2'') [''https://example.com/docs/v2/a''] [] =
            Inr [''https://example.com/docs/v2/a'']"
    by code_simp
  have b: "fst (fetch_sitemap_urls ?E ''https://example.com/docs/v2'' empty_world) =
             Inr [''https://example.com/docs/v2/a'']"
  proof -
    from sitemap_first_usable_candidate[where root_el = "?doc" and w = empty_world,
            OF st sp2 us2 c2 p2 t2] ne pg
    obtain w1 where "fetch_sitemap_urls ?E ''https://example.com/docs/v2'' empty_world =
        (sitemap_filter ?E (rstrip_chars ''/'' ''https://example.com/docs/v2'')
           (rstrip_chars ''/''
              (path \<lparr>scheme = ''https'', netloc = ''example.com'', path = ''/docs/v2'',
                     query = [], fragment = []\<rparr>))
           (fst (collect_urls ?E ?doc w1)) [],
         snd (collect_urls ?E ?doc w1))"
      by blast
    then have "fst (fetch_sitemap_urls ?E ''https://example.com/docs/v2'' empty_world) =
        sitemap_filter ?E (rstrip_chars ''/'' ''https://example.com/docs/v2'')
           (rstrip_chars ''/'' ''/docs/v2'') (fst (collect_urls ?E ?doc w1)) []"
      by (simp del: sitemap_filter.simps)
    then show ?thesis unfolding cu sf .
  qed
  from a b t1 pn n2 t2 show ?thesis by blast
qed

section \<open>C4: the run manifest of a target without pages\<close>

lemma files_fetch_attempts: "files (snd (fetch_attempts E u t as w)) = files w"
proof (induction as arbitrary: w)
  case Nil
  then show ?case by simp
next
  case (Cons a as)
  let ?w2 = "w\<lparr>requests := requests w @ [u], sleeps := sleeps w @ [backoff_ms a]\<rparr>"
  from Cons.IH[of ?w2] show ?case
    by (cases "urlopen E (length (requests w)) u t") (simp_all add: Let_def)
qed

lemma files_fetch: "files (snd (fetch E u w)) = files w"
  unfolding fetch_def fetch_with_def by (rule files_fetch_attempts)

lemma files_fetch_pair: "fetch E u w = (r, w1) \<Longrightarrow> files w1 = files w"
  using files_fetch[of E u w] by simp

lemma files_llms_fetch_loop: "files (snd (llms_fetch_loop E cands seen found w)) = files w"
proof (induction cands arbitrary: seen found w)
  case Nil
  then show ?case by simp
next
  case (Cons u cands)
  obtain r w1 where f: "fetch E u w = (r, w1)" by (cases "fetch E u w")
  have w1: "files w1 = files w" using f by (rule files_fetch_pair)
  show ?case using Cons.IH f w1 by (simp add: Let_def)
qed

lemma files_try_llms_files: "files (snd (try_llms_files E base_url w)) = files w"
proof -
  have "files (snd (case llms_fetch_loop E cands {} [] w of (found, w1) \<Rightarrow> (Inr found :: py_exception + _, w1))) = files w"
    for cands
    using files_llms_fetch_loop[of E cands "{}" "[]" w]
    by (cases "llms_fetch_loop E cands {} [] w") simp
  then show ?thesis
    unfolding try_llms_files_def Let_def by (simp split: option.splits prod.splits)
qed

lemma files_index_loop: "files (snd (index_loop E ns sms us w)) = files w"
proof (induction sms arbitrary: us w)
  case Nil
  then show ?case by simp
next
  case (Cons sm sms)
  obtain r w1 where f: "fetch E (get_loc ns sm) w = (r, w1)" by (cases "fetch E (get_loc ns sm) w")
  have w1: "files w1 = files w" using f by (rule files_fetch_pair)
  show ?case using Cons.IH f w1 by (simp add: Let_def split: sum.splits option.splits)
qed

lemma files_collect_urls: "files (snd (collect_urls E root_el w)) = files w"
  unfolding collect_urls_def Let_def by (simp add: files_index_loop)

lemma files_first_sitemap_text: "files (snd (first_sitemap_text E cands w)) = files w"
proof (induction cands arbitrary: w)
  case Nil
  then show ?case by simp
next
  case (Cons s cands)
  obtain r w1 where f: "fetch E s w = (r, w1)" by (cases "fetch E s w")
  have w1: "files w1 = files w" using f by (rule files_fetch_pair)
  show ?case using Cons.IH f w1 by (simp add: Let_def split: sum.splits)
qed

lemma files_fetch_sitemap_urls: "files (snd (fetch_sitemap_urls E base_url w)) = files w"
proof (cases "split_root_and_base E base_url")
  case None
  then show ?thesis by (simp add: fetch_sitemap_urls_def)
next
  case (Some rb)
  obtain root base where rb: "rb = (root, base)" by (cases rb)
  show ?thesis
  proof (cases "urlsplit E base")
    case None
    then show ?thesis using Some rb by (simp add: fetch_sitemap_urls_def)
  next
    case bp: (Some bp)
    let ?cands = "[base @ ''/sitemap.xml'', root @ ''/sitemap.xml'',
                   base @ ''/sitemap.xml.gz'', root @ ''/sitemap.xml.gz'']"
    obtain x w1 where fs: "first_sitemap_text E ?cands w = (x, w1)"
      by (cases "first_sitemap_text E ?cands w")
    have w1: "files w1 = files w" using files_first_sitemap_text[of E ?cands w] fs by simp
    have cu: "files (snd (collect_urls E el w1)) = files w" for el
      using files_collect_urls[of E el w1] w1 by simp
    have unf: "fetch_sitemap_urls E base_url w =
      (case x of
         None \<Rightarrow> (Inr [], w1)
       | Some t \<Rightarrow>
           if t = [] then (Inr [], w1)
           else (case parse_xml_text E t of
                   None \<Rightarrow> (Inr [], w1)
                 | Some root_el \<Rightarrow>
                     let (urls, w2) = collect_urls E root_el w1
                     in (sitemap_filter E (rstrip_chars ''/'' base) (rstrip_chars ''/'' (path bp)) urls [], w2)))"
      unfolding fetch_sitemap_urls_def using Some rb bp fs
      by (simp add: Let_def del: first_sitemap_text.simps)
    show ?thesis
      unfolding unf using w1 cu
      by (simp add: Let_def split: option.splits prod.splits) (metis snd_conv)
  qed
qed

lemma files_sidebar_urls: "files (snd (sidebar_urls E base_url w)) = files w"
  unfolding sidebar_urls_def Let_def
  by (auto split: option.splits prod.splits sum.splits dest!: files_fetch_pair)

lemma files_discover_pages: "files (snd (discover_pages E base_url w)) = files w"
proof -
  have a: "files w1 = files w" if "try_llms_files E base_url w = (x, w1)" for x w1
    using files_try_llms_files[of E base_url w] that by simp
  have b: "files w2 = files w1" if "fetch_sitemap_urls E base_url w1 = (x, w2)" for x w1 w2
    using files_fetch_sitemap_urls[of E base_url w1] that by simp
  have c: "files w3 = files w2" if "sidebar_urls E base_url w2 = (x, w3)" for x w2 w3
    using files_sidebar_urls[of E base_url w2] that by simp
  show ?thesis
    unfolding discover_pages_def
    by (auto split: option.splits prod.splits sum.splits dest!: a b c)
qed

lemma files_ensure_dir: "files (ensure_dir p w) = files w"
  by (simp add: ensure_dir_def)

lemma files_sleep_ms: "files (sleep_ms d w) = files w"
  by (simp add: sleep_ms_def)

lemma files_save_bytes_other: "q \<noteq> p \<Longrightarrow> files (save_bytes q d w) p = files w p"
  by (simp add: save_bytes_def)

lemma files_save_text_other: "q \<noteq> p \<Longrightarrow> files (save_text q t w) p = files w p"
  by (simp add: save_text_def)

lemma meta_download_one:
  "files (snd (download_one E [x] delay u r w)) (meta_path d) = files w (meta_path d)"
proof (cases "url_to_page_slug E u")
  case None
  then show ?thesis by (simp add: download_one_def)
next
  case (Some slug)
  have a: "[x, ''raw'', f] \<noteq> meta_path d" and b: "[x, ''md'', f] \<noteq> meta_path d" for f
    by (simp_all add: meta_path_def)
  show ?thesis
    unfolding download_one_def Let_def using Some
    by (simp add: files_sleep_ms files_save_text_other[OF b] files_save_bytes_other[OF a]
        split: sum.splits)
qed

lemma meta_download_loop:
  "files (snd (download_loop E [x] delay us md_paths w)) (meta_path d) = files w (meta_path d)"
proof (induction us arbitrary: md_paths w)
  case Nil
  then show ?case by simp
next
  case (Cons u us)
  obtain r w1 where f: "fetch E u w = (r, w1)" by (cases "fetch E u w")
  have w1: "files w1 = files w" using f by (rule files_fetch_pair)
  show ?case
  proof (cases "usable r")
    case False
    then show ?thesis using f w1 Cons.IH by simp
  next
    case True
    obtain res w2 where d1: "download_one E [x] delay u (the r) w1 = (res, w2)"
      by (cases "download_one E [x] delay u (the r) w1")
    have w2: "files w2 (meta_path d) = files w (meta_path d)"
      using meta_download_one[of E x delay u "the r" w1 d] d1 w1 by simp
    show ?thesis using f True d1 w2 Cons.IH by (cases res) simp_all
  qed
qed

lemma meta_download_pages:
  "files (snd (download_pages E us [x] delay k w)) (meta_path d) = files w (meta_path d)"
  unfolding download_pages_def by (simp add: meta_download_loop files_ensure_dir)

lemma meta_build_combined:
  "files (build_combined md_paths [x, ''combined.md''] title w) (meta_path d) = files w (meta_path d)"
  unfolding build_combined_def by (rule files_save_text_other) (simp add: meta_path_def)

lemma meta_download_and_combine:
  "files (snd (download_and_combine E base_url [x] us k w)) (meta_path d) = files w (meta_path d)"
proof -
  obtain res w1 where dp: "download_pages E us [x] DELAY_MS k w = (res, w1)"
    by (cases "download_pages E us [x] DELAY_MS k w")
  have w1: "files w1 (meta_path d) = files w (meta_path d)"
    using meta_download_pages[of E us x DELAY_MS k w d] dp by simp
  show ?thesis
    unfolding download_and_combine_def using dp w1
    by (cases res) (simp_all add: meta_build_combined)
qed

lemma meta_write_llms_fold:
  "files (fold (\<lambda>(name, fr). save_bytes [x, ''llms'', name] (body fr)) ls w) (meta_path d) =
   files w (meta_path d)"
proof (induction ls arbitrary: w)
  case Nil
  then show ?case by simp
next
  case (Cons l ls)
  obtain name fr where l: "l = (name, fr)" by (cases l)
  have "[x, ''llms'', name] \<noteq> meta_path d" by (simp add: meta_path_def)
  then show ?case using Cons.IH l by (simp add: files_save_bytes_other)
qed

lemma meta_write_llms_files:
  "files (write_llms_files ls [x] w) (meta_path d) = files w (meta_path d)"
  unfolding write_llms_files_def by (simp add: meta_write_llms_fold files_ensure_dir)

lemma snd_result_passthrough:
  "snd (case X of (Inl e, w4) \<Rightarrow> (Inl e, w4) | (Inr n, w4) \<Rightarrow> (Inr (), w4)) = snd X"
proof (cases X)
  case (Pair r w4)
  then show ?thesis by (cases r) simp_all
qed

lemma meta_run_for_url_auto:
  "files (snd (run_for_url_auto E u0 mode w)) (meta_path d) = files w (meta_path d)"
proof (cases "normalize_url u0 = []")
  case True
  then show ?thesis by (simp add: run_for_url_auto_def)
next
  case ne: False
  show ?thesis
  proof (cases "slug_from_url E (normalize_url u0)")
    case None
    then show ?thesis using ne by (simp add: run_for_url_auto_def)
  next
    case (Some slug)
    let ?u = "normalize_url u0"
    define x where "x = ''docgrab__'' @ slug"
    have sd: "site_dir_of slug = [x]" by (simp add: site_dir_of_def x_def)
    obtain res w2 where dp: "discover_pages E ?u (ensure_dir [x] w) = (res, w2)"
      by (cases "discover_pages E ?u (ensure_dir [x] w)")
    have w2: "files w2 = files w"
      using files_discover_pages[of E ?u "ensure_dir [x] w"] dp by (simp add: files_ensure_dir)
    show ?thesis
    proof (cases res)
      case (Inl e)
      then show ?thesis
        using ne Some dp w2 by (simp add: run_for_url_auto_def sd)
    next
      case (Inr found)
      obtain meth pgs ls where found: "found = (meth, pgs, ls)" by (cases found)
      let ?w3 = "write_llms_files ls [x] w2"
      have w3: "files ?w3 (meta_path d) = files w (meta_path d)"
        using meta_write_llms_files[of ls x w2 d] w2 by simp
      have full: "[x, ''combined__llms-full.txt''] \<noteq> meta_path d" by (simp add: meta_path_def)
      have dc: "files (snd (download_and_combine E ?u [x] us k ?w3)) (meta_path d) =
                files w (meta_path d)" for us k
        using meta_download_and_combine[of E ?u x us k ?w3 d] w3 by simp
      have dl: "files (snd (download_pages E us [x] DELAY_MS k ?w3)) (meta_path d) =
                files w (meta_path d)" for us k
        using meta_download_pages[of E us x DELAY_MS k ?w3 d] w3 by simp
      let ?full_branch = "case map_of ls ''llms-full.txt'' of
            Some fr \<Rightarrow> (Inr (), save_bytes ([x] @ [''combined__llms-full.txt'']) (body fr) ?w3)
          | None \<Rightarrow>
              if pgs \<noteq> [] then
                (case download_and_combine E ?u [x] pgs MAX_PAGES_DEFAULT ?w3 of
                   (Inl e, w4) \<Rightarrow> (Inl e, w4)
                 | (Inr n, w4) \<Rightarrow> (Inr (), w4))
              else
                (case download_pages E [?u] [x] DELAY_MS 1 ?w3 of
                   (Inl e, w4) \<Rightarrow> (Inl e, w4)
                 | (Inr md_paths, w4) \<Rightarrow> (Inr (), w4))"
      let ?all_branch = "case download_and_combine E ?u [x]
                               (if pgs \<noteq> [] then pgs else [?u]) MAX_PAGES_DEFAULT ?w3 of
                          (Inl e, w4) \<Rightarrow> (Inl e, w4)
                        | (Inr n, w4) \<Rightarrow> (Inr (), w4)"
      let ?start_branch = "case download_pages E [?u] [x] DELAY_MS 1 ?w3 of
                          (Inl e, w4) \<Rightarrow> (Inl e, w4)
                        | (Inr md_paths, w4) \<Rightarrow> (Inr (), w4)"
      have unf: "run_for_url_auto E u0 mode w =
          (if mode = ''full'' then ?full_branch
           else if mode = ''all'' then ?all_branch
           else if mode = ''start'' then ?start_branch
           else (Inr (), ?w3))"
        unfolding run_for_url_auto_def Let_def
        using ne Some dp Inr found by (simp add: sd cong: option.case_cong if_cong)
      have fb: "files (snd ?full_branch) (meta_path d) = files w (meta_path d)"
      proof (cases "map_of ls ''llms-full.txt''")
        case None
        then show ?thesis
          using dc[of pgs MAX_PAGES_DEFAULT] dl[of "[?u]" 1]
          by (simp add: snd_result_passthrough)
      next
        case (Some fr)
        then show ?thesis using w3 by (simp add: files_save_bytes_other[OF full])
      qed
      have ab: "files (snd ?all_branch) (meta_path d) = files w (meta_path d)"
        using dc[of "if pgs \<noteq> [] then pgs else [?u]" MAX_PAGES_DEFAULT]
        by (simp only: snd_result_passthrough)
      have sb: "files (snd ?start_branch) (meta_path d) = files w (meta_path d)"
        using dl[of "[?u]" 1] by (simp only: snd_result_passthrough)
      show ?thesis
      proof (cases "mode = ''full''")
        case True
        then show ?thesis unfolding unf using fb by (simp only: if_P if_not_P if_True if_False)
      next
        case nf: False
        show ?thesis
        proof (cases "mode = ''all''")
          case True
          then show ?thesis unfolding unf using nf ab by (simp only: if_P if_not_P if_True if_False)
        next
          case na: False
          show ?thesis
          proof (cases "mode = ''start''")
            case True
            then show ?thesis unfolding unf using nf na sb by (simp only: if_P if_not_P if_True if_False)
          next
            case False
            then show ?thesis unfolding unf using nf na w3 by (simp only: if_P if_not_P if_True if_False snd_conv)
          qed
        qed
      qed
    qed
  qed
qed

lemma meta_run_targets_auto:
  "files (snd (run_targets_auto E mode us w)) (meta_path d) = files w (meta_path d)"
proof (induction us arbitrary: w)
  case Nil
  then show ?case by simp
next
  case (Cons u us)
  obtain res w1 where r: "run_for_url_auto E u mode w = (res, w1)"
    by (cases "run_for_url_auto E u mode w")
  have w1: "files w1 (meta_path d) = files w (meta_path d)"
    using meta_run_for_url_auto[of E u mode w d] r by simp
  show ?case using r w1 Cons.IH by (cases res) simp_all
qed

lemma dirs_fetch_attempts: "dirs (snd (fetch_attempts E u t as w)) = dirs w"
proof (induction as arbitrary: w)
  case Nil
  then show ?case by simp
next
  case (Cons a as)
  let ?w2 = "w\<lparr>requests := requests w @ [u], sleeps := sleeps w @ [backoff_ms a]\<rparr>"
  from Cons.IH[of ?w2] show ?case
    by (cases "urlopen E (length (requests w)) u t") (simp_all add: Let_def)
qed

lemma dirs_fetch: "dirs (snd (fetch E u w)) = dirs w"
  unfolding fetch_def fetch_with_def by (rule dirs_fetch_attempts)

lemma dirs_fetch_pair: "fetch E u w = (r, w1) \<Longrightarrow> dirs w1 = dirs w"
  using dirs_fetch[of E u w] by simp

lemma dirs_llms_fetch_loop: "dirs (snd (llms_fetch_loop E cands seen found w)) = dirs w"
proof (induction cands arbitrary: seen found w)
  case Nil
  then show ?case by simp
next
  case (Cons u cands)
  obtain r w1 where f: "fetch E u w = (r, w1)" by (cases "fetch E u w")
  have w1: "dirs w1 = dirs w" using f by (rule dirs_fetch_pair)
  show ?case using Cons.IH f w1 by (simp add: Let_def)
qed

lemma dirs_try_llms_files: "dirs (snd (try_llms_files E base_url w)) = dirs w"
proof -
  have "dirs (snd (case llms_fetch_loop E cands {} [] w of (found, w1) \<Rightarrow> (Inr found :: py_exception + _, w1))) = dirs w"
    for cands
    using dirs_llms_fetch_loop[of E cands "{}" "[]" w]
    by (cases "llms_fetch_loop E cands {} [] w") simp
  then show ?thesis
    unfolding try_llms_files_def Let_def by (simp split: option.splits prod.splits)
qed

lemma dirs_index_loop: "dirs (snd (index_loop E ns sms us w)) = dirs w"
proof (induction sms arbitrary: us w)
  case Nil
  then show ?case by simp
next
  case (Cons sm sms)
  obtain r w1 where f: "fetch E (get_loc ns sm) w = (r, w1)" by (cases "fetch E (get_loc ns sm) w")
  have w1: "dirs w1 = dirs w" using f by (rule dirs_fetch_pair)
  show ?case using Cons.IH f w1 by (simp add: Let_def split: sum.splits option.splits)
qed

lemma dirs_collect_urls: "dirs (snd (collect_urls E root_el w)) = dirs w"
  unfolding collect_urls_def Let_def by (simp add: dirs_index_loop)

lemma dirs_first_sitemap_text: "dirs (snd (first_sitemap_text E cands w)) = dirs w"
proof (induction cands arbitrary: w)
  case Nil
  then show ?case by simp
next
  case (Cons s cands)
  obtain r w1 where f: "fetch E s w = (r, w1)" by (cases "fetch E s w")
  have w1: "dirs w1 = dirs w" using f by (rule dirs_fetch_pair)
  show ?case using Cons.IH f w1 by (simp add: Let_def split: sum.splits)
qed

lemma dirs_fetch_sitemap_urls: "dirs (snd (fetch_sitemap_urls E base_url w)) = dirs w"
proof (cases "split_root_and_base E base_url")
  case None
  then show ?thesis by (simp add: fetch_sitemap_urls_def)
next
  case (Some rb)
  obtain root base where rb: "rb = (root, base)" by (cases rb)
  show ?thesis
  proof (cases "urlsplit E base")
    case None
    then show ?thesis using Some rb by (simp add: fetch_sitemap_urls_def)
  next
    case bp: (Some bp)
    let ?cands = "[base @ ''/sitemap.xml'', root @ ''/sitemap.xml'',
                   base @ ''/sitemap.xml.gz'', root @ ''/sitemap.xml.gz'']"
    obtain x w1 where fs: "first_sitemap_text E ?cands w = (x, w1)"
      by (cases "first_sitemap_text E ?cands w")
    have w1: "dirs w1 = dirs w" using dirs_first_sitemap_text[of E ?cands w] fs by simp
    have cu: "dirs (snd (collect_urls E el w1)) = dirs w" for el
      using dirs_collect_urls[of E el w1] w1 by simp
    have unf: "fetch_sitemap_urls E base_url w =
      (case x of
         None \<Rightarrow> (Inr [], w1)
       | Some t \<Rightarrow>
           if t = [] then (Inr [], w1)
           else (case parse_xml_text E t of
                   None \<Rightarrow> (Inr [], w1)
                 | Some root_el \<Rightarrow>
                     let (urls, w2) = collect_urls E root_el w1
                     in (sitemap_filter E (rstrip_chars ''/'' base) (rstrip_chars ''/'' (path bp)) urls [], w2)))"
      unfolding fetch_sitemap_urls_def using Some rb bp fs
      by (simp add: Let_def del: first_sitemap_text.simps)
    show ?thesis
      unfolding unf using w1 cu
      by (simp add: Let_def split: option.splits prod.splits) (metis snd_conv)
  qed
qed

lemma dirs_sidebar_urls: "dirs (snd (sidebar_urls E base_url w)) = dirs w"
  unfolding sidebar_urls_def Let_def
  by (auto split: option.splits prod.splits sum.splits dest!: dirs_fetch_pair)

lemma dirs_discover_pages: "dirs (snd (discover_pages E base_url w)) = dirs w"
proof -
  have a: "dirs w1 = dirs w" if "try_llms_files E base_url w = (x, w1)" for x w1
    using dirs_try_llms_files[of E base_url w] that by simp
  have b: "dirs w2 = dirs w1" if "fetch_sitemap_urls E base_url w1 = (x, w2)" for x w1 w2
    using dirs_fetch_sitemap_urls[of E base_url w1] that by simp
  have c: "dirs w3 = dirs w2" if "sidebar_urls E base_url w2 = (x, w3)" for x w2 w3
    using dirs_sidebar_urls[of E base_url w2] that by simp
  show ?thesis
    unfolding discover_pages_def
    by (auto split: option.splits prod.splits sum.splits dest!: a b c)
qed

lemma fetch_dead: "dead_network E \<Longrightarrow> fst (fetch E u w) = None"
  unfolding fetch_def fetch_with_def fetch_attempts_none_iff dead_network_def by simp

lemma fetch_dead_pair: "dead_network E \<Longrightarrow> fetch E u w = (r, w1) \<Longrightarrow> \<not> usable r"
  using fetch_dead[of E u w] by (simp add: usable_def)

lemma llms_fetch_loop_dead:
  "dead_network E \<Longrightarrow> fst (llms_fetch_loop E cands seen found w) = found"
proof (induction cands arbitrary: seen w)
  case Nil
  then show ?case by simp
next
  case (Cons u cands)
  obtain r w1 where f: "fetch E u w = (r, w1)" by (cases "fetch E u w")
  have nu: "\<not> usable r" using Cons.prems f by (rule fetch_dead_pair)
  show ?case using Cons.IH[OF Cons.prems] f nu by (simp add: Let_def)
qed

lemma try_llms_files_dead:
  assumes "dead_network E" "split_root_and_base E base_url = Some (root, base)"
    "urlsplit E base = Some bp"
  shows "fst (try_llms_files E base_url w) = Inr []"
proof -
  have "fst (case llms_fetch_loop E cands {} [] w of (found, w1) \<Rightarrow> (Inr found :: py_exception + _, w1)) = Inr []"
    for cands
    using llms_fetch_loop_dead[OF assms(1), of cands "{}" "[]" w]
    by (cases "llms_fetch_loop E cands {} [] w") simp
  then show ?thesis
    unfolding try_llms_files_def Let_def using assms(2,3) by simp
qed

lemma first_sitemap_text_dead:
  "dead_network E \<Longrightarrow> fst (first_sitemap_text E cands w) = None"
proof (induction cands arbitrary: w)
  case Nil
  then show ?case by simp
next
  case (Cons s cands)
  obtain r w1 where f: "fetch E s w = (r, w1)" by (cases "fetch E s w")
  have nu: "\<not> usable r" using Cons.prems f by (rule fetch_dead_pair)
  show ?case using Cons.IH[OF Cons.prems] f nu by (simp add: Let_def)
qed

lemma fetch_sitemap_urls_dead:
  assumes "dead_network E" "split_root_and_base E base_url = Some (root, base)"
    "urlsplit E base = Some bp"
  shows "fst (fetch_sitemap_urls E base_url w) = Inr []"
proof -
  let ?cands = "[base @ ''/sitemap.xml'', root @ ''/sitemap.xml'',
                 base @ ''/sitemap.xml.gz'', root @ ''/sitemap.xml.gz'']"
  obtain x w1 where fs: "first_sitemap_text E ?cands w = (x, w1)"
    by (cases "first_sitemap_text E ?cands w")
  have "x = None" using first_sitemap_text_dead[OF assms(1), of ?cands w] fs by simp
  then show ?thesis
    unfolding fetch_sitemap_urls_def using assms(2,3) fs
    by (simp add: Let_def del: first_sitemap_text.simps)
qed

lemma sidebar_urls_dead:
  assumes "dead_network E" "split_root_and_base E base_url = Some (root, base)"
  shows "fst (sidebar_urls E base_url w) = Inr []"
proof -
  obtain r w1 where f: "fetch E base_url w = (r, w1)" by (cases "fetch E base_url w")
  have nu: "\<not> usable r" using assms(1) f by (rule fetch_dead_pair)
  show ?thesis unfolding sidebar_urls_def using assms(2) f nu by (simp add: Let_def)
qed

lemma discover_pages_dead:
  assumes "dead_network E" "split_root_and_base E base_url = Some (root, base)"
    "urlsplit E base = Some bp"
  shows "fst (discover_pages E base_url w) = Inr (''ingen'', [], [])"
proof -
  obtain a w1 where t: "try_llms_files E base_url w = (a, w1)"
    by (cases "try_llms_files E base_url w")
  have a: "a = Inr []" using try_llms_files_dead[OF assms, of w] t by simp
  obtain b w2 where s: "fetch_sitemap_urls E base_url w1 = (b, w2)"
    by (cases "fetch_sitemap_urls E base_url w1")
  have b: "b = Inr []" using fetch_sitemap_urls_dead[OF assms, of w1] s by simp
  obtain c w3 where n: "sidebar_urls E base_url w2 = (c, w3)"
    by (cases "sidebar_urls E base_url w2")
  have c: "c = Inr []" using sidebar_urls_dead[OF assms(1,2), of w2] n by simp
  show ?thesis
    unfolding discover_pages_def using t a s b n c by (simp add: llms_txt_urls_def)
qed

lemma download_loop_dead:
  "dead_network E \<Longrightarrow>
   fst (download_loop E out_dir delay us md_paths w) = Inr md_paths \<and>
   files (snd (download_loop E out_dir delay us md_paths w)) = files w \<and>
   dirs (snd (download_loop E out_dir delay us md_paths w)) = dirs w"
proof (induction us arbitrary: w)
  case Nil
  then show ?case by simp
next
  case (Cons u us)
  obtain r w1 where f: "fetch E u w = (r, w1)" by (cases "fetch E u w")
  have nu: "\<not> usable r" using Cons.prems f by (rule fetch_dead_pair)
  have w1: "files w1 = files w" "dirs w1 = dirs w"
    using f files_fetch_pair dirs_fetch_pair by blast+
  show ?case using Cons.IH[OF Cons.prems, of w1] f nu w1 by (simp add: Let_def)
qed

lemma download_pages_dead:
  assumes "dead_network E"
  shows "fst (download_pages E us out_dir delay k w) = Inr [] \<and>
         files (snd (download_pages E us out_dir delay k w)) = files w \<and>
         dirs (snd (download_pages E us out_dir delay k w)) =
           dirs w \<union> set (prefixes_of (out_dir @ [''raw''])) \<union> set (prefixes_of (out_dir @ [''md'']))"
  unfolding download_pages_def
  using download_loop_dead[OF assms, of out_dir delay "take k us" "[]"
      "ensure_dir (out_dir @ [''md'']) (ensure_dir (out_dir @ [''raw'']) w)"]
  by (simp add: ensure_dir_def)

lemma download_and_combine_dead:
  assumes "dead_network E"
  shows "fst (download_and_combine E base_url sdir us k w) = Inr 0 \<and>
         sdir \<in> dirs (snd (download_and_combine E base_url sdir us k w))"
proof -
  obtain res w1 where dp: "download_pages E us sdir DELAY_MS k w = (res, w1)"
    by (cases "download_pages E us sdir DELAY_MS k w")
  have res: "res = Inr []" and d: "dirs w1 =
      dirs w \<union> set (prefixes_of (sdir @ [''raw''])) \<union> set (prefixes_of (sdir @ [''md'']))"
    using download_pages_dead[OF assms, of us sdir DELAY_MS k w] dp by simp_all
  have "sdir \<in> set (prefixes_of (sdir @ [''raw'']))"
    by (induction sdir) auto
  with d have "sdir \<in> dirs w1" by simp
  then show ?thesis
    unfolding download_and_combine_def using dp res
    by (simp add: build_combined_def save_text_def)
qed

lemma site_dir_in_prefixes: "p \<in> set (prefixes_of p)"
  by (induction p) auto

lemma run_for_url_auto_dead:
  assumes dead: "dead_network E"
    and u: "normalize_url u0 = u" "u \<noteq> []"
    and slug: "slug_from_url E u = Some slug"
    and split: "split_root_and_base E u = Some (root, base)" "urlsplit E base = Some bp"
  shows "fst (run_for_url_auto E u0 mode w) = Inr () \<and>
         site_dir_of slug \<in> dirs (snd (run_for_url_auto E u0 mode w))"
proof -
  define sdir where "sdir = site_dir_of slug"
  obtain res w2 where dp: "discover_pages E u (ensure_dir sdir w) = (res, w2)"
    by (cases "discover_pages E u (ensure_dir sdir w)")
  have res: "res = Inr (''ingen'', [], [])"
    using discover_pages_dead[OF dead split, of "ensure_dir sdir w"] dp by simp
  have d2: "sdir \<in> dirs w2"
    using dirs_discover_pages[of E u "ensure_dir sdir w"] dp
    by (simp add: ensure_dir_def site_dir_in_prefixes)
  have w3: "write_llms_files [] sdir w2 = w2" by (simp add: write_llms_files_def)
  have dl: "fst (download_pages E us sdir DELAY_MS k w2) = Inr [] \<and>
            sdir \<in> dirs (snd (download_pages E us sdir DELAY_MS k w2))" for us k
    using download_pages_dead[OF dead, of us sdir DELAY_MS k w2] d2 by simp
  have dc: "fst (download_and_combine E u sdir us k w2) = Inr 0 \<and>
            sdir \<in> dirs (snd (download_and_combine E u sdir us k w2))" for us k
    by (rule download_and_combine_dead[OF dead])
  have pass1: "fst (case X of (Inl e, w4) \<Rightarrow> (Inl e, w4) | (Inr n, w4) \<Rightarrow> (Inr (), w4)) = Inr () \<and>
        sdir \<in> dirs (snd (case X of (Inl e, w4) \<Rightarrow> (Inl e, w4) | (Inr n, w4) \<Rightarrow> (Inr (), w4)))"
    if "fst X = Inr v \<and> sdir \<in> dirs (snd X)" for X :: "(py_exception + 'a) \<times> world" and v
    using that by (cases X) auto
  let ?start_branch = "case download_pages E [u] sdir DELAY_MS 1 w2 of
                          (Inl e, w4) \<Rightarrow> (Inl e, w4)
                        | (Inr md_paths, w4) \<Rightarrow> (Inr (), w4)"
  let ?all_branch = "case download_and_combine E u sdir [u] MAX_PAGES_DEFAULT w2 of
                          (Inl e, w4) \<Rightarrow> (Inl e, w4)
                        | (Inr n, w4) \<Rightarrow> (Inr (), w4)"
  have unf: "run_for_url_auto E u0 mode w =
      (if mode = ''full'' then ?start_branch
       else if mode = ''all'' then ?all_branch
       else if mode = ''start'' then ?start_branch
       else (Inr (), w2))"
    unfolding run_for_url_auto_def Let_def
    using u slug dp res by (simp add: sdir_def[symmetric] w3)
  have sb: "fst ?start_branch = Inr () \<and> sdir \<in> dirs (snd ?start_branch)"
    by (rule pass1[OF dl])
  have ab: "fst ?all_branch = Inr () \<and> sdir \<in> dirs (snd ?all_branch)"
    by (rule pass1[OF dc])
  show ?thesis
    unfolding sdir_def[symmetric] unf using sb ab d2 by simp
qed

lemma requests_save_text: "requests (save_text p s w) = requests w"
  by (simp add: save_text_def save_bytes_def ensure_dir_def Let_def)

lemma files_save_text_same: "files (save_text p s w) p = Some s"
  by (simp add: save_text_def save_bytes_def ensure_dir_def Let_def)

lemma run_for_url_dead:
  assumes dead: "dead_network E"
    and u: "normalize_url u0 = u" "u \<noteq> []"
    and slug: "slug_from_url E u = Some slug"
    and split: "split_root_and_base E u = Some (root, base)" "urlsplit E base = Some bp"
    and ans: "answer ''ingen'' [] = (action, chosen)"
             "action \<noteq> ''skip''" "action \<noteq> ''full_single''"
  shows "fst (run_for_url E answer u0 w) = Inr () \<and>
         files (snd (run_for_url E answer u0 w)) (meta_path (''docgrab__'' @ slug)) =
           Some (meta_json u ''ingen'' 0 (length chosen)
                   (unix_time E (snd (run_for_url E answer u0 w))))"
proof -
  define sdir where "sdir = site_dir_of slug"
  define x where "x = ''docgrab__'' @ slug"
  have sd: "sdir = [x]" by (simp add: sdir_def x_def site_dir_of_def)
  obtain res w2 where dp: "discover_pages E u (ensure_dir sdir w) = (res, w2)"
    by (cases "discover_pages E u (ensure_dir sdir w)")
  have res: "res = Inr (''ingen'', [], [])"
    using discover_pages_dead[OF dead split, of "ensure_dir sdir w"] dp by simp
  have w3: "write_llms_files [] sdir w2 = w2" by (simp add: write_llms_files_def)
  obtain r4 w4 where dc: "download_and_combine E u sdir chosen MAX_PAGES_DEFAULT w2 = (r4, w4)"
    by (cases "download_and_combine E u sdir chosen MAX_PAGES_DEFAULT w2")
  have r4: "r4 = Inr 0"
    using download_and_combine_dead[OF dead, of u sdir chosen MAX_PAGES_DEFAULT w2] dc by simp
  have unf: "run_for_url E answer u0 w =
      (Inr (), save_text (sdir @ [''meta.json''])
                 (meta_json u ''ingen'' 0 (length chosen) (unix_time E w4)) w4)"
    unfolding run_for_url_def Let_def
    using u slug dp res ans dc r4 by (simp add: sdir_def[symmetric] w3)
  have mp: "meta_path x = sdir @ [''meta.json'']" by (simp add: meta_path_def sd)
  show ?thesis
    unfolding unf x_def[symmetric] mp
    by (simp add: files_save_text_same unix_time_def requests_save_text del: append.simps)
qed

text \<open>
  \<^bold>\<open>C4\<close>. The claim: every processed target, also one run through the non-interactive paths
  (\<^verbatim>\<open>--auto\<close> with the modes full, all and start), that fetches no page still produces its
  output directory and a \<^verbatim>\<open>meta.json\<close> reporting zero pages, and the remaining targets are
  still processed.

  What the code does, for a target none of whose requests is answered and for every mode:
  \<^verbatim>\<open>run_for_url_auto\<close> returns normally, so the loop of \<^verbatim>\<open>main\<close> goes on with the remaining
  targets, and the directory of the target exists afterwards; but the file \<^verbatim>\<open>meta.json\<close> of
  the target is what it was before the run: \<^verbatim>\<open>run_for_url_auto\<close> has no statement that writes
  it. Its interactive sibling \<^verbatim>\<open>run_for_url\<close>, of which it is documented to be the
  non-interactive version, writes \<^verbatim>\<open>meta.json\<close> with \<^verbatim>\<open>downloaded_pages\<close> 0 on the same target
  for the actions start, all\_pages and select\_pages.
\<close>

theorem auto_run_writes_no_manifest:
  assumes "dead_network E"
    and "normalize_url u0 = u" and "u \<noteq> []"
    and "slug_from_url E u = Some slug"
    and "split_root_and_base E u = Some (root, base)" and "urlsplit E base = Some bp"
    and "answer ''ingen'' [] = (action, chosen)"
    and "action \<noteq> ''skip''" and "action \<noteq> ''full_single''"
  shows "fst (run_for_url_auto E u0 mode w) = Inr () \<and>
         run_targets_auto E mode (u0 # rest) w =
           run_targets_auto E mode rest (snd (run_for_url_auto E u0 mode w)) \<and>
         site_dir_of slug \<in> dirs (snd (run_for_url_auto E u0 mode w)) \<and>
         files (snd (run_for_url_auto E u0 mode w)) (meta_path (''docgrab__'' @ slug)) =
           files w (meta_path (''docgrab__'' @ slug)) \<and>
         files (snd (run_for_url E answer u0 w)) (meta_path (''docgrab__'' @ slug)) =
           Some (meta_json u ''ingen'' 0 (length chosen)
                   (unix_time E (snd (run_for_url E answer u0 w))))"
proof -
  have a: "fst (run_for_url_auto E u0 mode w) = Inr () \<and>
           site_dir_of slug \<in> dirs (snd (run_for_url_auto E u0 mode w))"
    by (rule run_for_url_auto_dead[OF assms(1-6)])
  have b: "run_targets_auto E mode (u0 # rest) w =
           run_targets_auto E mode rest (snd (run_for_url_auto E u0 mode w))"
    using a by (cases "run_for_url_auto E u0 mode w") simp
  have c: "files (snd (run_for_url_auto E u0 mode w)) (meta_path (''docgrab__'' @ slug)) =
           files w (meta_path (''docgrab__'' @ slug))"
    by (rule meta_run_for_url_auto)
  have d: "files (snd (run_for_url E answer u0 w)) (meta_path (''docgrab__'' @ slug)) =
           Some (meta_json u ''ingen'' 0 (length chosen)
                   (unix_time E (snd (run_for_url E answer u0 w))))"
    using run_for_url_dead[where answer = answer, OF assms] by simp
  from a b c d show ?thesis by simp
qed

theorem auto_run_writes_no_manifest_witness:
  "fst (run_for_url_auto offline_env ''https://a.example'' ''all'' empty_world) = Inr () \<and>
   run_targets_auto offline_env ''all'' [''https://a.example'', ''https://b.example''] empty_world =
     run_targets_auto offline_env ''all'' [''https://b.example'']
       (snd (run_for_url_auto offline_env ''https://a.example'' ''all'' empty_world)) \<and>
   [''docgrab__a.example''] \<in>
     dirs (snd (run_for_url_auto offline_env ''https://a.example'' ''all'' empty_world)) \<and>
   files (snd (run_for_url_auto offline_env ''https://a.example'' ''all'' empty_world))
     (meta_path ''docgrab__a.example'') = None \<and>
   files (snd (run_for_url offline_env (\<lambda>m ps. (''start'', [''https://a.example'']))
                 ''https://a.example'' empty_world))
     (meta_path ''docgrab__a.example'') =
     Some (meta_json ''https://a.example'' ''ingen'' 0 1 0)"
proof -
  have dn: "dead_network offline_env"
    by (simp add: dead_network_def offline_env_def)
  have nu: "normalize_url ''https://a.example'' = ''https://a.example''" by code_simp
  have ne: "''https://a.example'' \<noteq> []" by simp
  have sl: "slug_from_url offline_env ''https://a.example'' = Some ''a.example''" by code_simp
  have sp: "split_root_and_base offline_env ''https://a.example'' =
              Some (''https://a.example'', ''https://a.example'')"
    by code_simp
  have us: "urlsplit offline_env ''https://a.example'' =
              Some \<lparr>scheme = ''https'', netloc = ''a.example'', path = [],
                    query = [], fragment = []\<rparr>"
    by code_simp
  have an: "(\<lambda>m ps. (''start'', [''https://a.example''])) ''ingen'' [] =
              (''start'', [''https://a.example''])"
    by simp
  have n1: "''start'' \<noteq> ''skip''" by simp
  have n2: "''start'' \<noteq> ''full_single''" by simp
  have tm: "unix_time offline_env w = 0" for w
    by (simp add: unix_time_def offline_env_def)
  have fe: "files empty_world p = None" for p by (simp add: empty_world_def)
  from auto_run_writes_no_manifest[where answer = "\<lambda>m ps. (''start'', [''https://a.example''])"
         and mode = "''all''" and w = empty_world and rest = "[''https://b.example'']",
         OF dn nu ne sl sp us an n1 n2]
  show ?thesis by (simp add: tm fe site_dir_of_def)
qed

end
